theory Spec2Isabelle
  imports Main "HOL-Library.AList"
begin

section \<open>JavaScript objects and the key store interface\<close>

text \<open>
  A JavaScript object with string keys is an association list that is read through
  \<^const>\<open>map_of\<close> only; the enumeration order of its keys is not modelled (no function
  below depends on it). \<open>{...a, ...b}\<close> and \<open>Object.assign(a, b)\<close> are \<open>assign a b\<close>:
  the entries of \<open>b\<close> override those of \<open>a\<close>.
\<close>

type_synonym 'a obj = "(string \<times> 'a) list"

definition assign :: "'a obj \<Rightarrow> 'a obj \<Rightarrow> 'a obj" where
  "assign target src = foldr (\<lambda>(k, v). AList.update k v) src target"

text \<open>
  A value of the key store is \<open>SignalDataTypeMap[T] | null\<close>: \<open>Null\<close> is the only falsy
  value of that type (every other value is an object), and \<open>undefined\<close> is the absence
  of the key (\<open>map_of d id = None\<close>).
\<close>

datatype 'v stored = Null | Val 'v

type_synonym 'v dict = "'v stored obj"
type_synonym 'v SignalDataSet = "'v dict obj"

datatype error = TypeError | StoreFailure | CommitFailure | Failure string

text \<open>
  \<open>SignalKeyStore\<close>: the store handed to \<open>addTransactionCapability\<close> (and to
  \<open>getNextPreKeys\<close>) is an argument of the code, so it is one here: two operations on a
  backing state \<open>'b\<close>, each of which may throw.
\<close>

record ('b, 'v) SignalKeyStore =
  store_get :: "string \<Rightarrow> string list \<Rightarrow> 'b \<Rightarrow> (error + 'v dict) \<times> 'b"
  store_set :: "'v SignalDataSet \<Rightarrow> 'b \<Rightarrow> (error + unit) \<times> 'b"

text \<open>
  The calls that reach the store are recorded, in order: \<open>GetCall type ids\<close>,
  \<open>SetCall data ok\<close> (\<open>ok\<close> is False when the call threw) and \<open>Delay ms\<close> for
  \<open>await delay(ms)\<close>.
\<close>

datatype 'v call = GetCall string "string list" | SetCall "'v SignalDataSet" bool | Delay nat

fun is_SetCall :: "'v call \<Rightarrow> bool" where
  "is_SetCall (SetCall d ok) = True"
| "is_SetCall c = False"

record ('b, 'v) keys_state =
  backing :: 'b
  calls :: "'v call list"

definition state_get ::
  "('b, 'v) SignalKeyStore \<Rightarrow> string \<Rightarrow> string list \<Rightarrow> ('b, 'v, 'z) keys_state_scheme
    \<Rightarrow> (error + 'v dict) \<times> ('b, 'v, 'z) keys_state_scheme" where
  "state_get st ty ids s =
     (case store_get st ty ids (backing s) of
        (r, b) \<Rightarrow> (r, s\<lparr>backing := b, calls := calls s @ [GetCall ty ids]\<rparr>))"

definition state_set ::
  "('b, 'v) SignalKeyStore \<Rightarrow> 'v SignalDataSet \<Rightarrow> ('b, 'v, 'z) keys_state_scheme
    \<Rightarrow> (error + unit) \<times> ('b, 'v, 'z) keys_state_scheme" where
  "state_set st data s =
     (case store_set st data (backing s) of
        (r, b) \<Rightarrow> (r, s\<lparr>backing := b, calls := calls s @ [SetCall data (\<not> isl r)]\<rparr>))"

section \<open>addTransactionCapability (src/Utils/auth-utils.ts)\<close>

text \<open>
  The closure variables of \<open>addTransactionCapability\<close> are the fields of the state.
  \<open>maxCommitRetries\<close> is a number of tries, a natural number: \<open>while(tries)\<close> with
  \<open>tries -= 1\<close> then ends after that many failed tries. Execution is sequential: one
  asynchronous caller at a time.
\<close>

record TransactionCapabilityOptions =
  maxCommitRetries :: nat
  delayBetweenTriesMs :: nat

record ('b, 'v) txn = "('b, 'v) keys_state" +
  dbQueriesInTransaction :: nat
  transactionCache :: "'v SignalDataSet"
  mutations :: "'v SignalDataSet"
  transactionsInProgress :: int

definition isInTransaction :: "('b, 'v, 'z) txn_scheme \<Rightarrow> bool" where
  "isInTransaction s = (transactionsInProgress s > 0)"

text \<open>\<open>o[k] ?? {}\<close>\<close>

definition prop_or_empty :: "'a obj obj \<Rightarrow> string \<Rightarrow> 'a obj" where
  "prop_or_empty ob k = (case map_of ob k of None \<Rightarrow> [] | Some d \<Rightarrow> d)"

text \<open>
  The body of \<open>if(idsRequiringFetch.length)\<close> in \<open>get\<close>: count the query, fetch from
  the store, merge the result into \<open>transactionCache[type]\<close>.
\<close>

definition fetch ::
  "('b, 'v) SignalKeyStore \<Rightarrow> string \<Rightarrow> string list \<Rightarrow> ('b, 'v, 'z) txn_scheme
    \<Rightarrow> error option \<times> ('b, 'v, 'z) txn_scheme" where
  "fetch st ty idsRequiringFetch s =
     (case state_get st ty idsRequiringFetch
             (s\<lparr>dbQueriesInTransaction := dbQueriesInTransaction s + 1\<rparr>) of
        (Inl e, s1) \<Rightarrow> (Some e, s1)
      | (Inr result, s1) \<Rightarrow>
          (None, s1\<lparr>transactionCache :=
             AList.update ty (assign (prop_or_empty (transactionCache s1) ty) result)
               (transactionCache s1)\<rparr>))"

text \<open>The \<open>ids.reduce\<close> at the end of \<open>get\<close>: only truthy cached values are returned.\<close>

definition collect :: "'v dict \<Rightarrow> string list \<Rightarrow> 'v dict" where
  "collect cached ids =
     fold (\<lambda>id acc. case map_of cached id of
                       Some (Val v) \<Rightarrow> AList.update id (Val v) acc
                     | _ \<Rightarrow> acc) ids []"

definition get ::
  "('b, 'v) SignalKeyStore \<Rightarrow> string \<Rightarrow> string list \<Rightarrow> ('b, 'v, 'z) txn_scheme
    \<Rightarrow> (error + 'v dict) \<times> ('b, 'v, 'z) txn_scheme" where
  "get st ty ids s =
     (if isInTransaction s then
        let dict = prop_or_empty (transactionCache s) ty;
            idsRequiringFetch = filter (\<lambda>id. map_of dict id = None) ids
        in case (if idsRequiringFetch \<noteq> [] then fetch st ty idsRequiringFetch s
                 else (None, s)) of
             (Some e, s1) \<Rightarrow> (Inl e, s1)
           | (None, s1) \<Rightarrow> (Inr (collect (prop_or_empty (transactionCache s1) ty) ids), s1)
      else state_get st ty ids s)"

text \<open>\<open>for(const key in data) cache[key] = { ...cache[key], ...data[key] }\<close>\<close>

definition merge_data :: "'v SignalDataSet \<Rightarrow> 'v SignalDataSet \<Rightarrow> 'v SignalDataSet" where
  "merge_data data cache =
     foldr (\<lambda>(key, d) c. AList.update key (assign (prop_or_empty c key) d) c) data cache"

definition set' ::
  "('b, 'v) SignalKeyStore \<Rightarrow> 'v SignalDataSet \<Rightarrow> ('b, 'v, 'z) txn_scheme
    \<Rightarrow> (error + unit) \<times> ('b, 'v, 'z) txn_scheme" where
  "set' st data s =
     (if isInTransaction s then
        (Inr (), s\<lparr>transactionCache := merge_data data (transactionCache s),
                   mutations := merge_data data (mutations s)\<rparr>)
      else state_set st data s)"

text \<open>
  The commit loop of \<open>transaction\<close>: \<open>while(tries)\<close>, one \<open>state.set(mutations)\<close> per
  try, \<open>break\<close> on success, a delay after a failure. Nothing is thrown when the tries
  run out.
\<close>

primrec commit ::
  "('b, 'v) SignalKeyStore \<Rightarrow> TransactionCapabilityOptions \<Rightarrow> nat \<Rightarrow> ('b, 'v, 'z) txn_scheme
    \<Rightarrow> ('b, 'v, 'z) txn_scheme" where
  "commit st tco 0 s = s"
| "commit st tco (Suc tries) s =
     (case state_set st (mutations s) s of
        (Inr u, s1) \<Rightarrow> s1
      | (Inl e, s1) \<Rightarrow>
          commit st tco tries (s1\<lparr>calls := calls s1 @ [Delay (delayBetweenTriesMs tco)]\<rparr>))"

text \<open>The \<open>finally\<close> block of \<open>transaction\<close>.\<close>

definition finally' :: "('b, 'v, 'z) txn_scheme \<Rightarrow> ('b, 'v, 'z) txn_scheme" where
  "finally' s =
     (let s1 = s\<lparr>transactionsInProgress := transactionsInProgress s - 1\<rparr>
      in if transactionsInProgress s1 = 0
         then s1\<lparr>transactionCache := [], mutations := [], dbQueriesInTransaction := 0\<rparr>
         else s1)"

definition transaction ::
  "('b, 'v) SignalKeyStore \<Rightarrow> TransactionCapabilityOptions
    \<Rightarrow> (('b, 'v, 'z) txn_scheme \<Rightarrow> (error + 'r) \<times> ('b, 'v, 'z) txn_scheme)
    \<Rightarrow> ('b, 'v, 'z) txn_scheme \<Rightarrow> (error + 'r) \<times> ('b, 'v, 'z) txn_scheme" where
  "transaction st tco work s =
     (case work (s\<lparr>transactionsInProgress := transactionsInProgress s + 1\<rparr>) of
        (Inl e, s2) \<Rightarrow> (Inl e, finally' s2)
      | (Inr result, s2) \<Rightarrow>
          (Inr result,
           finally' (if transactionsInProgress s2 = 1 \<and> mutations s2 \<noteq> []
                     then commit st tco (maxCommitRetries tco) s2 else s2)))"

text \<open>
  A workload that touches the store only through \<open>get\<close>, \<open>set\<close> and nested
  \<open>transaction\<close> calls, as a tree: each node is one call and its continuation. The
  continuation of \<open>Transaction\<close> receives the outcome of the nested call, so a workload
  may catch the failure of a nested transaction.
\<close>

datatype ('v, 'r) work =
    Return 'r
  | Throw error
  | Get string "string list" "'v dict \<Rightarrow> ('v, 'r) work"
  | Set "'v SignalDataSet" "('v, 'r) work"
  | Transaction "('v, 'r) work" "error + 'r \<Rightarrow> ('v, 'r) work"

primrec run ::
  "('b, 'v) SignalKeyStore \<Rightarrow> TransactionCapabilityOptions \<Rightarrow> ('v, 'r) work
    \<Rightarrow> ('b, 'v, 'z) txn_scheme \<Rightarrow> (error + 'r) \<times> ('b, 'v, 'z) txn_scheme" where
  "run st tco (Return r) = (\<lambda>s. (Inr r, s))"
| "run st tco (Throw e) = (\<lambda>s. (Inl e, s))"
| "run st tco (Get ty ids k) =
     (\<lambda>s. case get st ty ids s of
             (Inl e, s1) \<Rightarrow> (Inl e, s1)
           | (Inr d, s1) \<Rightarrow> run st tco (k d) s1)"
| "run st tco (Set data w) =
     (\<lambda>s. case set' st data s of
             (Inl e, s1) \<Rightarrow> (Inl e, s1)
           | (Inr u, s1) \<Rightarrow> run st tco w s1)"
| "run st tco (Transaction w k) =
     (\<lambda>s. case transaction st tco (run st tco w) s of
             (r, s1) \<Rightarrow> run st tco (k r) s1)"

text \<open>
  A store to run the model on concrete inputs: the contents are a data set, and the
  first \<open>failing\<close> calls of \<open>set\<close> throw and leave the contents alone.
\<close>

record 'v test_backing =
  contents :: "'v SignalDataSet"
  failing :: nat

definition test_store :: "('v test_backing, 'v) SignalKeyStore" where
  "test_store =
     \<lparr>store_get = (\<lambda>ty ids b.
          (Inr (collect (prop_or_empty (contents b) ty) ids), b)),
      store_set = (\<lambda>data b.
          if failing b > 0 then (Inl StoreFailure, b\<lparr>failing := failing b - 1\<rparr>)
          else (Inr (), b\<lparr>contents := merge_data data (contents b)\<rparr>))\<rparr>"

definition init_txn :: "'b \<Rightarrow> ('b, 'v) txn" where
  "init_txn b =
     \<lparr>backing = b, calls = [], dbQueriesInTransaction = 0, transactionCache = [],
      mutations = [], transactionsInProgress = 0\<rparr>"


text \<open>The calls added to the record between two states, and the successful writes.\<close>

definition new_calls ::
  "('b, 'v, 'z) keys_state_scheme \<Rightarrow> ('b, 'v, 'y) keys_state_scheme \<Rightarrow> 'v call list" where
  "new_calls s s' = drop (length (calls s)) (calls s')"

fun is_success :: "'v call \<Rightarrow> bool" where
  "is_success (SetCall d ok) = ok"
| "is_success c = False"

text \<open>Concrete inputs: three tries 10 ms apart, and one session written under id \<open>a\<close>.\<close>

definition tco3 :: TransactionCapabilityOptions where
  "tco3 = \<lparr>maxCommitRetries = 3, delayBetweenTriesMs = 10\<rparr>"

definition session_a :: "nat SignalDataSet" where
  "session_a = [(''session'', [(''a'', Val 1)])]"


subsection \<open>Vocabulary for the properties of the transaction layer\<close>

text \<open>
  \<open>lookup2 ds ty i\<close> is \<open>ds[ty]?.[i]\<close>. \<open>touches data ty i\<close>: the data set has an
  entry for \<open>i\<close> under \<open>ty\<close>. \<open>no_write ty i w\<close>: no \<open>set\<close> of the workload \<open>w\<close>
  touches \<open>(ty, i)\<close>. \<open>answers_only_asked st\<close>: the store's \<open>get\<close> returns entries for
  requested ids only. \<open>asks_for ty i c\<close>: the call fetches \<open>i\<close> under \<open>ty\<close> from the
  store; \<open>writes_null ty i c\<close>: the call is a \<open>set\<close> whose data holds null under
  \<open>(ty, i)\<close>.
\<close>

definition lookup2 :: "'a obj obj \<Rightarrow> string \<Rightarrow> string \<Rightarrow> 'a option" where
  "lookup2 ds ty i = map_of (prop_or_empty ds ty) i"

definition touches :: "'v SignalDataSet \<Rightarrow> string \<Rightarrow> string \<Rightarrow> bool" where
  "touches data ty i = (\<exists>(k, d)\<in>set data. k = ty \<and> i \<in> fst ` set d)"

primrec no_write :: "string \<Rightarrow> string \<Rightarrow> ('v, 'r) work \<Rightarrow> bool" where
  "no_write ty i (Return r) = True"
| "no_write ty i (Throw e) = True"
| "no_write ty i (Get t ids k) = (\<forall>d. no_write ty i (k d))"
| "no_write ty i (Set data w) = (\<not> touches data ty i \<and> no_write ty i w)"
| "no_write ty i (Transaction w k) = (no_write ty i w \<and> (\<forall>r. no_write ty i (k r)))"

definition answers_only_asked :: "('b, 'v) SignalKeyStore \<Rightarrow> bool" where
  "answers_only_asked st =
     (\<forall>ty ids b d b'. store_get st ty ids b = (Inr d, b') \<longrightarrow> fst ` set d \<subseteq> set ids)"

fun asks_for :: "string \<Rightarrow> string \<Rightarrow> 'v call \<Rightarrow> bool" where
  "asks_for ty i (GetCall t ids) = (t = ty \<and> i \<in> set ids)"
| "asks_for ty i c = False"

definition quiet :: "string \<Rightarrow> string \<Rightarrow> 'v call list \<Rightarrow> bool" where
  "quiet ty i evs = (\<forall>c\<in>set evs. \<not> is_SetCall c \<and> \<not> asks_for ty i c)"

fun writes_null :: "string \<Rightarrow> string \<Rightarrow> 'v call \<Rightarrow> bool" where
  "writes_null ty i (SetCall d ok) = (lookup2 d ty i = Some Null)"
| "writes_null ty i c = False"

definition delete_a :: "nat SignalDataSet" where
  "delete_a = [(''session'', [(''a'', Null)])]"

definition stored_a :: "(nat test_backing, nat) txn" where
  "stored_a = init_txn \<lparr>contents = [(''session'', [(''a'', Val 5)])], failing = 0\<rparr>"


section \<open>Pre-keys (src/Utils/signal.ts)\<close>

text \<open>
  Ids and counts are JavaScript numbers holding integers: \<open>int\<close>. \<open>Curve.generateKeyPair()\<close>
  is random: \<open>generateKeyPair n\<close> is the pair the \<open>n\<close>-th call of a batch returns.
  \<open>toString\<close> is the decimal \<open>id.toString()\<close>, also applied when a number is used as
  an object key. \<open>keys\<close> is any \<open>SignalKeyStore\<close>; its calls are recorded.
\<close>


record AuthenticationCreds =
  nextPreKeyId :: int
  firstUnuploadedPreKeyId :: int

record 'k GeneratedPreKeys =
  newPreKeys :: "(int \<times> 'k) list"
  lastPreKeyId :: int
  preKeysRange :: "int \<times> int"

fun digits :: "nat \<Rightarrow> string" where
  "digits n = (if n < 10 then [''0123456789'' ! n]
               else digits (n div 10) @ [''0123456789'' ! (n mod 10)])"

declare digits.simps [simp del]

definition toString :: "int \<Rightarrow> string" where
  "toString i = (if i < 0 then CHR ''-'' # digits (nat (- i)) else digits (nat i))"

definition generateOrGetPreKeys ::
  "(nat \<Rightarrow> 'k) \<Rightarrow> 'z AuthenticationCreds_scheme \<Rightarrow> int \<Rightarrow> 'k GeneratedPreKeys" where
  "generateOrGetPreKeys generateKeyPair creds range' =
     (let avaliable = nextPreKeyId creds - firstUnuploadedPreKeyId creds;
          remaining = range' - avaliable;
          lastId = nextPreKeyId creds + remaining - 1
      in \<lparr>newPreKeys =
            (if remaining > 0
             then map (\<lambda>i. (i, generateKeyPair (nat (i - nextPreKeyId creds))))
                    [nextPreKeyId creds..lastId]
             else []),
          lastPreKeyId = lastId,
          preKeysRange = (firstUnuploadedPreKeyId creds, range')\<rparr>)"

definition getPreKeys ::
  "('b, 'k) SignalKeyStore \<Rightarrow> int \<Rightarrow> int \<Rightarrow> ('b, 'k, 'z) keys_state_scheme
    \<Rightarrow> (error + 'k dict) \<times> ('b, 'k, 'z) keys_state_scheme" where
  "getPreKeys keys min' limit s = state_get keys ''pre-key'' (map toString [min'..limit - 1]) s"

definition getNextPreKeys ::
  "(nat \<Rightarrow> 'k) \<Rightarrow> ('b, 'k) SignalKeyStore \<Rightarrow> 'y AuthenticationCreds_scheme \<Rightarrow> int
    \<Rightarrow> ('b, 'k, 'z) keys_state_scheme
    \<Rightarrow> (error + AuthenticationCreds \<times> 'k dict) \<times> ('b, 'k, 'z) keys_state_scheme" where
  "getNextPreKeys generateKeyPair keys creds count s =
     (let g = generateOrGetPreKeys generateKeyPair creds count;
          update = \<lparr>nextPreKeyId = max (lastPreKeyId g + 1) (nextPreKeyId creds),
                    firstUnuploadedPreKeyId =
                      max (firstUnuploadedPreKeyId creds) (lastPreKeyId g + 1)\<rparr>
      in case state_set keys
                [(''pre-key'', map (\<lambda>(i, k). (toString i, Val k)) (newPreKeys g))] s of
           (Inl e, s1) \<Rightarrow> (Inl e, s1)
         | (Inr u, s1) \<Rightarrow>
             (case getPreKeys keys (fst (preKeysRange g))
                     (fst (preKeysRange g) + snd (preKeysRange g)) s1 of
                (Inl e, s2) \<Rightarrow> (Inl e, s2)
              | (Inr preKeys, s2) \<Rightarrow> (Inr (update, preKeys), s2)))"



text \<open>An empty store with no call recorded.\<close>

definition no_keys :: "(nat test_backing, nat) keys_state" where
  "no_keys = \<lparr>backing = \<lparr>contents = [], failing = 0\<rparr>, calls = []\<rparr>"


section \<open>Device lists of a USync response (src/Utils/signal.ts)\<close>

text \<open>
  \<open>BinaryNode\<close>: a tag, attributes and a content that is absent, bytes or child nodes.
  A JavaScript number is \<open>NaN\<close> or an integer (device ids are integers on the wire);
  \<open>strict_eq\<close> is \<open>===\<close> on numbers, which \<open>NaN\<close> never satisfies.
\<close>

datatype 'n content = Absent | Bytes "nat list" | Nodes "'n list"

datatype BinaryNode = BinaryNode (tag: string) (attrs: "string obj") (content: "BinaryNode content")

datatype jsnum = NaN | Num int

fun strict_eq :: "jsnum \<Rightarrow> jsnum \<Rightarrow> bool" where
  "strict_eq (Num a) (Num b) = (a = b)"
| "strict_eq a b = False"

record JidWithDevice =
  user :: string
  device :: "jsnum option"

record FullJid = JidWithDevice +
  server :: string

text \<open>
  The helpers of \<open>WABinary\<close> are not part of the sources at hand, so they are
  parameters: \<open>jidDecode\<close> (of a possibly undefined string), \<open>getBinaryNodeChild\<close>
  (of a possibly undefined node), and \<open>toNumber\<close>, JavaScript's conversion of a string
  by unary \<open>+\<close>. \<open>unary_plus\<close> is \<open>+attrs.id\<close>: an absent attribute gives \<open>NaN\<close>.
  \<open>truthy\<close> is \<open>!!\<close> of a possibly absent string.
\<close>

record WABinary =
  jidDecode :: "string option \<Rightarrow> FullJid option"
  getBinaryNodeChild :: "BinaryNode option \<Rightarrow> string \<Rightarrow> BinaryNode option"
  toNumber :: "string \<Rightarrow> jsnum"

definition unary_plus :: "'z WABinary_scheme \<Rightarrow> string option \<Rightarrow> jsnum" where
  "unary_plus env v = (case v of None \<Rightarrow> NaN | Some s \<Rightarrow> toNumber env s)"

definition truthy :: "string option \<Rightarrow> bool" where
  "truthy v = (case v of None \<Rightarrow> False | Some s \<Rightarrow> s \<noteq> [])"

text \<open>A \<open>for ... of\<close> loop whose body may throw: the first failure ends the loop.\<close>

fun for_each :: "('a \<Rightarrow> 's \<Rightarrow> error + 's) \<Rightarrow> 'a list \<Rightarrow> 's \<Rightarrow> error + 's" where
  "for_each f [] acc = Inr acc"
| "for_each f (x # xs) acc = (case f x acc of Inl e \<Rightarrow> Inl e | Inr acc' \<Rightarrow> for_each f xs acc')"

text \<open>
  \<open>extracted.push\<close> is state passing on the list. A missing own device
  (\<open>myDevice\<close> undefined) is different from every number.
\<close>

definition processDevice ::
  "'z WABinary_scheme \<Rightarrow> string \<Rightarrow> string obj \<Rightarrow> string \<Rightarrow> string \<Rightarrow> jsnum option \<Rightarrow> bool
    \<Rightarrow> JidWithDevice list \<Rightarrow> JidWithDevice list" where
  "processDevice env tag' attrs' user' myUser myDevice excludeZeroDevices extracted =
     (let device' = unary_plus env (map_of attrs' ''id'')
      in if tag' = ''device'' \<and>
            (\<not> excludeZeroDevices \<or> \<not> strict_eq device' (Num 0)) \<and>
            (myUser \<noteq> user' \<or>
               \<not> (case myDevice of None \<Rightarrow> False | Some m \<Rightarrow> strict_eq m device')) \<and>
            (strict_eq device' (Num 0) \<or> truthy (map_of attrs' ''key-index''))
         then extracted @ [\<lparr>user = user', device = Some device'\<rparr>]
         else extracted)"

definition processItem ::
  "'z WABinary_scheme \<Rightarrow> BinaryNode \<Rightarrow> string \<Rightarrow> jsnum option \<Rightarrow> bool
    \<Rightarrow> JidWithDevice list \<Rightarrow> error + JidWithDevice list" where
  "processItem env item myUser myDevice excludeZeroDevices extracted =
     (case jidDecode env (map_of (attrs item) ''jid'') of
        None \<Rightarrow> Inl TypeError
      | Some j \<Rightarrow>
          (let devicesNode = getBinaryNodeChild env (Some item) ''devices'';
               deviceListNode = getBinaryNodeChild env devicesNode ''device-list''
           in case deviceListNode of
                Some (BinaryNode t a (Nodes cs)) \<Rightarrow>
                  Inr (fold (\<lambda>c. processDevice env (tag c) (attrs c) (user j) myUser myDevice
                                  excludeZeroDevices) cs extracted)
              | _ \<Rightarrow> Inr extracted))"

text \<open>
  \<open>for(const node of result.content)\<close>: an absent content is not iterable
  (\<open>TypeError\<close>); the elements of a byte content are numbers, which have no \<open>list\<close>
  child, so nothing is extracted from them.
\<close>

definition extractDeviceJids ::
  "'z WABinary_scheme \<Rightarrow> BinaryNode \<Rightarrow> string \<Rightarrow> bool \<Rightarrow> error + JidWithDevice list" where
  "extractDeviceJids env result myJid excludeZeroDevices =
     (case jidDecode env (Some myJid) of
        None \<Rightarrow> Inl TypeError
      | Some me \<Rightarrow>
          (case content result of
             Absent \<Rightarrow> Inl TypeError
           | Bytes b \<Rightarrow> Inr []
           | Nodes ns \<Rightarrow>
               for_each (\<lambda>node extracted.
                  case getBinaryNodeChild env (Some node) ''list'' of
                    Some (BinaryNode t a (Nodes items)) \<Rightarrow>
                      for_each (\<lambda>item. processItem env item (user me) (device me)
                                         excludeZeroDevices) items extracted
                  | _ \<Rightarrow> Inr extracted) ns []))"

text \<open>
  Vocabulary for the property of \<open>extractDeviceJids\<close>: the \<open>device\<close> descriptors of an
  item, the items of a response, and \<open>retained\<close>: the pair comes from a descriptor of
  some item, tagged \<open>device\<close>, of that item's user, with a non-empty \<open>key-index\<close>, its
  device is not 0, and it is not the caller's own (user, device) pair under \<open>===\<close>.
\<close>

definition device_list :: "'z WABinary_scheme \<Rightarrow> BinaryNode \<Rightarrow> BinaryNode list" where
  "device_list env item =
     (case getBinaryNodeChild env (getBinaryNodeChild env (Some item) ''devices'') ''device-list'' of
        Some (BinaryNode t a (Nodes cs)) \<Rightarrow> cs
      | _ \<Rightarrow> [])"

definition user_items :: "'z WABinary_scheme \<Rightarrow> BinaryNode \<Rightarrow> BinaryNode list" where
  "user_items env result =
     (case content result of
        Nodes ns \<Rightarrow>
          concat (map (\<lambda>node. case getBinaryNodeChild env (Some node) ''list'' of
                                 Some (BinaryNode t a (Nodes items)) \<Rightarrow> items
                               | _ \<Rightarrow> []) ns)
      | _ \<Rightarrow> [])"

definition retained ::
  "'z WABinary_scheme \<Rightarrow> string \<Rightarrow> jsnum option \<Rightarrow> BinaryNode list \<Rightarrow> JidWithDevice \<Rightarrow> bool" where
  "retained env myUser myDevice items jd =
     (\<exists>item\<in>set items. \<exists>c\<in>set (device_list env item). \<exists>j.
        jidDecode env (map_of (attrs item) ''jid'') = Some j \<and> user jd = user j \<and>
        tag c = ''device'' \<and>
        device jd = Some (unary_plus env (map_of (attrs c) ''id'')) \<and>
        device jd \<noteq> Some (Num 0) \<and>
        \<not> (user jd = myUser \<and>
           (case (myDevice, device jd) of (Some m, Some d) \<Rightarrow> strict_eq m d | _ \<Rightarrow> False)) \<and>
        truthy (map_of (attrs c) ''key-index''))"

text \<open>
  Stand-ins for the helpers, to run the model on concrete inputs: decimal digits to a
  number, \<open>user[:device]@server\<close> JIDs, the first child with a given tag; and builders for
  a USync response.
\<close>

definition test_toNumber :: "string \<Rightarrow> jsnum" where
  "test_toNumber s =
     (if \<forall>c\<in>set s. c \<in> set ''0123456789''
      then Num (int (foldl (\<lambda>acc c. 10 * acc + (of_char c - 48)) 0 s))
      else NaN)"

definition test_jidDecode :: "string option \<Rightarrow> FullJid option" where
  "test_jidDecode jid =
     (case jid of
        None \<Rightarrow> None
      | Some s \<Rightarrow>
          if CHR ''@'' \<notin> set s then None
          else let userCombined = takeWhile (\<lambda>c. c \<noteq> CHR ''@'') s;
                   d = dropWhile (\<lambda>c. c \<noteq> CHR '':'') userCombined
               in Some \<lparr>user = takeWhile (\<lambda>c. c \<noteq> CHR '':'') userCombined,
                        device = (if length d \<le> 1 then None else Some (test_toNumber (tl d))),
                        server = tl (dropWhile (\<lambda>c. c \<noteq> CHR ''@'') s)\<rparr>)"

definition test_getBinaryNodeChild :: "BinaryNode option \<Rightarrow> string \<Rightarrow> BinaryNode option" where
  "test_getBinaryNodeChild node childTag =
     (case node of
        Some (BinaryNode t a (Nodes cs)) \<Rightarrow> find (\<lambda>c. tag c = childTag) cs
      | _ \<Rightarrow> None)"

definition test_env :: WABinary where
  "test_env = \<lparr>jidDecode = test_jidDecode, getBinaryNodeChild = test_getBinaryNodeChild,
               toNumber = test_toNumber\<rparr>"

definition device_node :: "string \<Rightarrow> string option \<Rightarrow> BinaryNode" where
  "device_node i keyIndex =
     BinaryNode ''device''
       ((''id'', i) # (case keyIndex of None \<Rightarrow> [] | Some k \<Rightarrow> [(''key-index'', k)])) Absent"

definition user_node :: "string \<Rightarrow> BinaryNode list \<Rightarrow> BinaryNode" where
  "user_node jid ds =
     BinaryNode ''user'' [(''jid'', jid)]
       (Nodes [BinaryNode ''devices'' [] (Nodes [BinaryNode ''device-list'' [] (Nodes ds)])])"

definition usync_result :: "BinaryNode list \<Rightarrow> BinaryNode" where
  "usync_result users =
     BinaryNode ''iq'' [(''type'', ''result'')]
       (Nodes [BinaryNode ''usync'' [] (Nodes [BinaryNode ''list'' [] (Nodes users)])])"

definition bob_and_me :: BinaryNode where
  "bob_and_me = usync_result
     [user_node ''bob@s.whatsapp.net''
        [device_node ''0'' None, device_node ''1'' (Some ''7''), device_node ''2'' None],
      user_node ''me@s.whatsapp.net''
        [device_node ''0'' None, device_node ''3'' (Some ''1''), device_node ''4'' (Some ''2'')]]"

section \<open>getUSyncDevices (src/Socket/messages-send.ts)\<close>

text \<open>
  The socket's collaborators are parameters too: \<open>query\<close> answers an IQ or fails,
  \<open>messageTag n\<close> is the \<open>n\<close>-th result of \<open>generateMessageTag()\<close>, \<open>creds_me_id\<close> is
  \<open>authState.creds.me?.id\<close>. The state of the socket extends that of the key store with
  \<open>userDevicesCache\<close> (an entry that expired is an absent entry), the IQs sent by
  \<open>query\<close>, the stanzas sent by \<open>sendNode\<close> and the \<open>user\<close> nodes whose session was
  injected into the Signal repository. A cache lookup with an undefined key
  (a JID that does not decode) throws.
\<close>

record Socket = WABinary +
  S_WHATSAPP_NET :: string
  jidNormalizedUser :: "string \<Rightarrow> string"
  jidEncode :: "string \<Rightarrow> string \<Rightarrow> jsnum option \<Rightarrow> string"
  query :: "BinaryNode \<Rightarrow> error + BinaryNode"
  messageTag :: "nat \<Rightarrow> string"
  creds_me_id :: "string option"

record ('b, 'v) sock = "('b, 'v) txn" +
  userDevicesCache :: "JidWithDevice list obj"
  queries :: "BinaryNode list"
  epoch :: nat
  sent :: "BinaryNode list"
  injected :: "BinaryNode list"

text \<open>\<open>Array.from(new Set(jids))\<close>: the first occurrence of each string is kept.\<close>

definition uniq :: "'a list \<Rightarrow> 'a list" where
  "uniq xs = rev (remdups (rev xs))"

definition usync_iq :: "'z Socket_scheme \<Rightarrow> string \<Rightarrow> BinaryNode list \<Rightarrow> BinaryNode" where
  "usync_iq env sid users =
     BinaryNode ''iq'' [(''to'', S_WHATSAPP_NET env), (''type'', ''get''), (''xmlns'', ''usync'')]
       (Nodes [BinaryNode ''usync''
                 [(''sid'', sid), (''mode'', ''query''), (''last'', ''true''), (''index'', ''0''),
                  (''context'', ''message'')]
                 (Nodes [BinaryNode ''query'' []
                           (Nodes [BinaryNode ''devices'' [(''version'', ''2'')] Absent]),
                         BinaryNode ''list'' [] (Nodes users)])])"

text \<open>The body of the first loop: one input JID, served from the cache or queued.\<close>

definition lookup_device ::
  "'z Socket_scheme \<Rightarrow> bool \<Rightarrow> JidWithDevice list obj \<Rightarrow> string
    \<Rightarrow> JidWithDevice list \<times> BinaryNode list \<Rightarrow> error + JidWithDevice list \<times> BinaryNode list" where
  "lookup_device env useCache cache jid acc =
     (case jidDecode env (Some jid) of
        None \<Rightarrow> Inl TypeError
      | Some j \<Rightarrow>
          (case (map_of cache (user j), useCache) of
             (Some devices, True) \<Rightarrow> Inr (fst acc @ devices, snd acc)
           | _ \<Rightarrow> Inr (fst acc,
                       snd acc @ [BinaryNode ''user'' [(''jid'', jidNormalizedUser env jid)] Absent])))"

definition group_by_user :: "JidWithDevice list \<Rightarrow> JidWithDevice list obj" where
  "group_by_user extracted =
     fold (\<lambda>item deviceMap.
             AList.update (user item)
               ((case map_of deviceMap (user item) of None \<Rightarrow> [] | Some ds \<Rightarrow> ds) @ [item])
               deviceMap) extracted []"

definition getUSyncDevices ::
  "'z Socket_scheme \<Rightarrow> string list \<Rightarrow> bool \<Rightarrow> bool \<Rightarrow> ('b, 'v, 'y) sock_scheme
    \<Rightarrow> (error + JidWithDevice list) \<times> ('b, 'v, 'y) sock_scheme" where
  "getUSyncDevices env jids useCache ignoreZeroDevices s =
     (case for_each (lookup_device env useCache (userDevicesCache s)) (uniq jids) ([], []) of
        Inl e \<Rightarrow> (Inl e, s)
      | Inr (deviceResults, users) \<Rightarrow>
          if users = [] then (Inr deviceResults, s)
          else
            let iq = usync_iq env (messageTag env (epoch s)) users;
                s1 = s\<lparr>epoch := epoch s + 1, queries := queries s @ [iq]\<rparr>
            in case query env iq of
                 Inl e \<Rightarrow> (Inl e, s1)
               | Inr result \<Rightarrow>
                   (case creds_me_id env of
                      None \<Rightarrow> (Inl TypeError, s1)
                    | Some meId \<Rightarrow>
                        (case extractDeviceJids env result meId ignoreZeroDevices of
                           Inl e \<Rightarrow> (Inl e, s1)
                         | Inr extracted \<Rightarrow>
                             (Inr (deviceResults @ extracted),
                              s1\<lparr>userDevicesCache :=
                                   assign (userDevicesCache s1) (group_by_user extracted)\<rparr>))))"

text \<open>
  Vocabulary for the property of \<open>getUSyncDevices\<close>: whether an input JID is served from
  the cache, the devices cached for it, and the \<open>user\<close> node queried for it.
\<close>

definition is_served :: "'z Socket_scheme \<Rightarrow> bool \<Rightarrow> JidWithDevice list obj \<Rightarrow> string \<Rightarrow> bool" where
  "is_served env useCache cache jid =
     (case jidDecode env (Some jid) of
        None \<Rightarrow> False
      | Some j \<Rightarrow> useCache \<and> map_of cache (user j) \<noteq> None)"

definition cached_devices :: "'z Socket_scheme \<Rightarrow> JidWithDevice list obj \<Rightarrow> string \<Rightarrow> JidWithDevice list" where
  "cached_devices env cache jid =
     (case jidDecode env (Some jid) of
        None \<Rightarrow> []
      | Some j \<Rightarrow> (case map_of cache (user j) of None \<Rightarrow> [] | Some ds \<Rightarrow> ds))"

definition user_query :: "'z Socket_scheme \<Rightarrow> string \<Rightarrow> BinaryNode" where
  "user_query env jid = BinaryNode ''user'' [(''jid'', jidNormalizedUser env jid)] Absent"

text \<open>
  Stand-ins for the socket: every queried user has device 0 and a device 1 with a
  \<open>key-index\<close>; \<open>queried_jids\<close> reads the JIDs listed in an IQ.
\<close>

definition queried_jids :: "BinaryNode \<Rightarrow> string list" where
  "queried_jids iq =
     (case test_getBinaryNodeChild (test_getBinaryNodeChild (Some iq) ''usync'') ''list'' of
        Some (BinaryNode t a (Nodes users)) \<Rightarrow>
          concat (map (\<lambda>u. case map_of (attrs u) ''jid'' of None \<Rightarrow> [] | Some j \<Rightarrow> [j]) users)
      | _ \<Rightarrow> [])"

definition test_query :: "BinaryNode \<Rightarrow> error + BinaryNode" where
  "test_query iq =
     Inr (usync_result
            (map (\<lambda>jid. user_node jid [device_node ''0'' None, device_node ''1'' (Some ''1'')])
               (queried_jids iq)))"

definition test_jidEncode :: "string \<Rightarrow> string \<Rightarrow> jsnum option \<Rightarrow> string" where
  "test_jidEncode u srv d =
     u @ (case d of Some (Num n) \<Rightarrow> if n \<noteq> 0 then '':'' @ toString n else [] | _ \<Rightarrow> [])
       @ ''@'' @ srv"

definition test_jidNormalizedUser :: "string \<Rightarrow> string" where
  "test_jidNormalizedUser jid =
     (case test_jidDecode (Some jid) of
        None \<Rightarrow> []
      | Some j \<Rightarrow> test_jidEncode (user j) (server j) None)"

definition test_socket :: Socket where
  "test_socket =
     \<lparr>jidDecode = test_jidDecode, getBinaryNodeChild = test_getBinaryNodeChild,
      toNumber = test_toNumber, S_WHATSAPP_NET = ''@s.whatsapp.net'',
      jidNormalizedUser = test_jidNormalizedUser, jidEncode = test_jidEncode,
      query = test_query, messageTag = (\<lambda>n. ''tag'' @ toString (int n)),
      creds_me_id = Some ''me:3@s.whatsapp.net''\<rparr>"

definition init_sock :: "'b \<Rightarrow> JidWithDevice list obj \<Rightarrow> ('b, 'v) sock" where
  "init_sock b cache =
     \<lparr>backing = b, calls = [], dbQueriesInTransaction = 0, transactionCache = [],
      mutations = [], transactionsInProgress = 0, userDevicesCache = cache, queries = [],
      epoch = 0, sent = [], injected = []\<rparr>"

definition no_cache :: "(unit, unit) sock" where
  "no_cache = init_sock () []"

definition one_cached :: "(unit, unit) sock" where
  "one_cached = init_sock () [(''14155550000'', [\<lparr>user = ''14155550000'', device = Some (Num 0)\<rparr>])]"


section \<open>The per-bucket job queue (WASignalGroup/queue_job.js)\<close>

text \<open>
  JavaScript runs one piece of code at a time: the executor runs from one \<open>await\<close> to
  the next without interruption, and jobs are enqueued only while it is suspended. The
  executor of a bucket is therefore a state machine with two events: a job is enqueued,
  or the job in flight settles (its awaitable resolves or rejects, or the 15 s timer of
  \<open>withTimeout\<close> fires; the executor goes on in the same way in all three cases).
\<close>

definition gcLimit :: nat where
  "gcLimit = 10000"

datatype outcome = Resolved | Rejected | TimedOut

text \<open>
  The executor at a suspension point: \<open>Suspended queue limit i job\<close> awaits \<open>job\<close>,
  which it read from \<open>queue[i]\<close>; \<open>Finished\<close> has called \<open>cleanup()\<close>. Reading past the
  end of the queue would give \<open>undefined\<close> and a \<open>TypeError\<close> in the \<open>catch\<close> block, which
  ends the executor without cleanup: \<open>Crashed\<close>.
\<close>

datatype 'j executor = Suspended "'j list" nat nat 'j | Finished | Crashed "'j list"

text \<open>
  \<open>_asyncQueueExecutor\<close> from the head of \<open>while (true)\<close> (\<open>while_body\<close>), inside the
  \<open>for\<close> loop (\<open>for_loop\<close>) and after it (\<open>after_for\<close>), up to the next suspension
  point. The third argument collects the sizes of the splices made on the way.
\<close>

function while_body :: "'j list \<Rightarrow> nat \<Rightarrow> nat list \<Rightarrow> 'j executor \<times> nat list"
  and for_loop :: "'j list \<Rightarrow> nat \<Rightarrow> nat \<Rightarrow> nat list \<Rightarrow> 'j executor \<times> nat list"
  and after_for :: "'j list \<Rightarrow> nat \<Rightarrow> nat list \<Rightarrow> 'j executor \<times> nat list" where
  "while_body queue offt gc = for_loop queue (min (length queue) gcLimit) offt gc"
| "for_loop queue limit i gc =
     (if i < limit
      then (if i < length queue then (Suspended queue limit i (queue ! i), gc)
            else (Crashed queue, gc))
      else after_for queue limit gc)"
| "after_for queue limit gc =
     (if limit < length queue
      then (if limit \<ge> gcLimit
            then while_body (drop limit queue) 0 (gc @ [limit])
            else while_body queue limit gc)
      else (Finished, gc))"
  by pat_completeness auto
termination
  by (relation "measure (\<lambda>x. case x of
        Inl (q, offt, gc) \<Rightarrow> 4 * length q + (if offt < min (length q) gcLimit then 1 else 4)
      | Inr (Inl (q, limit, i, gc)) \<Rightarrow> 4 * length q + (if i < limit then 0 else 3)
      | Inr (Inr (q, limit, gc)) \<Rightarrow> 4 * length q + 2)")
     (auto simp: gcLimit_def)

declare while_body.simps [simp del] for_loop.simps [simp del] after_for.simps [simp del]

text \<open>
  \<open>_queueAsyncBuckets\<close> maps a bucket to its queue; the model keeps the suspended
  executor of the bucket with it (\<open>None\<close> after a crash). Recorded for the properties:
  the executors started, the jobs started and settled, and the splices, in order.
\<close>

datatype 'j bucket = Bucket "'j list" "(nat \<times> nat \<times> 'j) option"

record ('bk, 'j) job_queue =
  buckets :: "'bk \<Rightarrow> 'j bucket option"
  executors :: "'bk list"
  started :: "('bk \<times> 'j) list"
  settled :: "('bk \<times> 'j \<times> outcome) list"
  spliced :: "('bk \<times> nat) list"

fun install :: "'bk \<Rightarrow> ('bk, 'j) job_queue \<Rightarrow> 'j executor \<times> nat list \<Rightarrow> ('bk, 'j) job_queue" where
  "install b s (Suspended queue limit i job, gc) =
     s\<lparr>buckets := (buckets s)(b \<mapsto> Bucket queue (Some (limit, i, job))),
       started := started s @ [(b, job)],
       spliced := spliced s @ map (Pair b) gc\<rparr>"
| "install b s (Finished, gc) =
     s\<lparr>buckets := (buckets s)(b := None), spliced := spliced s @ map (Pair b) gc\<rparr>"
| "install b s (Crashed queue, gc) =
     s\<lparr>buckets := (buckets s)(b \<mapsto> Bucket queue None), spliced := spliced s @ map (Pair b) gc\<rparr>"

text \<open>
  \<open>module.exports(bucket, awaitable)\<close>: a new bucket gets a queue and an executor, which
  runs to its first \<open>await\<close> at once; otherwise the job is appended.
\<close>

definition enqueue :: "'bk \<Rightarrow> 'j \<Rightarrow> ('bk, 'j) job_queue \<Rightarrow> ('bk, 'j) job_queue" where
  "enqueue b awaitable s =
     (case buckets s b of
        None \<Rightarrow> install b (s\<lparr>executors := executors s @ [b]\<rparr>) (while_body [awaitable] 0 [])
      | Some (Bucket queue ex) \<Rightarrow>
          s\<lparr>buckets := (buckets s)(b \<mapsto> Bucket (queue @ [awaitable]) ex)\<rparr>)"

text \<open>The job in flight settles and the executor of the bucket runs on.\<close>

definition settle :: "'bk \<Rightarrow> outcome \<Rightarrow> ('bk, 'j) job_queue \<Rightarrow> ('bk, 'j) job_queue" where
  "settle b out s =
     (case buckets s b of
        Some (Bucket queue (Some (limit, i, job))) \<Rightarrow>
          install b (s\<lparr>settled := settled s @ [(b, job, out)]\<rparr>) (for_loop queue limit (i + 1) [])
      | _ \<Rightarrow> s)"

definition no_buckets :: "('bk, 'j) job_queue" where
  "no_buckets = \<lparr>buckets = Map.empty, executors = [], started = [], settled = [], spliced = []\<rparr>"

text \<open>
  A burst: all jobs are enqueued while the first is in flight, then the jobs settle one
  after the other with the given outcomes.
\<close>

definition burst :: "'bk \<Rightarrow> 'j list \<Rightarrow> outcome list \<Rightarrow> ('bk, 'j) job_queue" where
  "burst b jobs outs = fold (settle b) outs (fold (enqueue b) jobs no_buckets)"


section \<open>relayMessage (src/Socket/messages-send.ts)\<close>

text \<open>
  A message (\<open>proto.IMessage\<close>) is a tree of named fields. \<open>field\<close> reads a property with
  optional chaining (\<open>m?.f\<close>), \<open>truthy_pb\<close> is JavaScript's truthiness of the value read.
\<close>

datatype pb = Obj "(string \<times> pb) list" | Str string | Bool bool | Number int | Data "nat list"

fun field :: "pb option \<Rightarrow> string \<Rightarrow> pb option" where
  "field (Some (Obj fs)) f = map_of fs f"
| "field v f = None"

fun truthy_pb :: "pb option \<Rightarrow> bool" where
  "truthy_pb None = False"
| "truthy_pb (Some (Obj fs)) = True"
| "truthy_pb (Some (Str s)) = (s \<noteq> [])"
| "truthy_pb (Some (Bool b)) = b"
| "truthy_pb (Some (Number n)) = (n \<noteq> 0)"
| "truthy_pb (Some (Data d)) = True"

definition getMediaType :: "pb \<Rightarrow> string option" where
  "getMediaType message =
     (if truthy_pb (field (Some message) ''imageMessage'') then Some ''image''
      else if truthy_pb (field (Some message) ''videoMessage'')
        then (if truthy_pb (field (field (Some message) ''videoMessage'') ''gifPlayback'')
              then Some ''gif'' else Some ''video'')
      else if truthy_pb (field (Some message) ''audioMessage'')
        then (if truthy_pb (field (field (Some message) ''audioMessage'') ''ptt'')
              then Some ''ptt'' else Some ''audio'')
      else if truthy_pb (field (Some message) ''contactMessage'') then Some ''vcard''
      else if truthy_pb (field (Some message) ''documentMessage'') then Some ''document''
      else if truthy_pb (field (Some message) ''contactsArrayMessage'') then Some ''contact_array''
      else if truthy_pb (field (Some message) ''liveLocationMessage'') then Some ''livelocation''
      else if truthy_pb (field (Some message) ''stickerMessage'') then Some ''sticker''
      else if truthy_pb (field (Some message) ''orderMessage'') then Some ''order''
      else if truthy_pb (field (Some message) ''productMessage'') then Some ''product''
      else if truthy_pb (field (Some message) ''interactiveResponseMessage'')
        then Some ''native_flow_response''
      else if truthy_pb (field (Some message) ''groupInviteMessage'') then Some ''url''
      else None)"

text \<open>
  \<open>getTypeMessage\<close> unwraps view-once, ephemeral and document-with-caption messages; reading
  a property of an undefined inner message throws.
\<close>

function getTypeMessage :: "pb option \<Rightarrow> error + string" where
  "getTypeMessage None = Inl TypeError"
| "getTypeMessage (Some msg) =
     (if truthy_pb (field (Some msg) ''viewOnceMessage'')
        then getTypeMessage (field (field (Some msg) ''viewOnceMessage'') ''message'')
      else if truthy_pb (field (Some msg) ''viewOnceMessageV2'')
        then getTypeMessage (field (field (Some msg) ''viewOnceMessageV2'') ''message'')
      else if truthy_pb (field (Some msg) ''viewOnceMessageV2Extension'')
        then getTypeMessage (field (field (Some msg) ''viewOnceMessageV2Extension'') ''message'')
      else if truthy_pb (field (Some msg) ''ephemeralMessage'')
        then getTypeMessage (field (field (Some msg) ''ephemeralMessage'') ''message'')
      else if truthy_pb (field (Some msg) ''documentWithCaptionMessage'')
        then getTypeMessage (field (field (Some msg) ''documentWithCaptionMessage'') ''message'')
      else if truthy_pb (field (Some msg) ''reactionMessage'') then Inr ''reaction''
      else if truthy_pb (field (Some msg) ''pollCreationMessage'') \<or>
              truthy_pb (field (Some msg) ''pollCreationMessageV2'') \<or>
              truthy_pb (field (Some msg) ''pollCreationMessageV3'') \<or>
              truthy_pb (field (Some msg) ''pollUpdateMessage'') then Inr ''reaction''
      else if getMediaType msg \<noteq> None then Inr ''media''
      else Inr ''text'')"
  by pat_completeness auto
termination
proof -
  have a: "map_of fs f = Some v \<Longrightarrow> size v < Suc (size_list (size_prod (\<lambda>x. 0) size) fs)"
    for fs :: "(string \<times> pb) list" and f v
    by (induction fs) (auto split: if_splits)
  have b: "field (Some m) f = Some v \<Longrightarrow> size v < size m" for m f v
    by (cases m) (auto dest: a)
  have c: "field (field (Some m) f) g = Some v \<Longrightarrow> size v < size m" for m f g v
  proof -
    assume h: "field (field (Some m) f) g = Some v"
    then obtain w where w: "field (Some m) f = Some w" by (cases "field (Some m) f") auto
    with h have "size v < size w" by (simp add: b)
    with b [OF w] show ?thesis by simp
  qed
  show ?thesis
    by (relation "measure (\<lambda>m. case m of None \<Rightarrow> 0 | Some v \<Rightarrow> Suc (size v))")
       (auto split: option.splits dest: c)
qed

text \<open>
  The values of the key store that \<open>relayMessage\<close> looks into are the entries of
  \<open>sender-key-memory\<close>, objects from device JID to boolean; every other value is opaque.
\<close>

datatype SignalData = SenderKeyMemory "bool obj" | Blob "nat list"

text \<open>
  The options of \<open>relayMessage\<close>; \<open>participant\<close> is the \<open>jid\<close> of the \<open>participant\<close> option.
  An option that is \<open>None\<close> was not given.
\<close>

record MessageRelayOptions =
  messageId :: "string option"
  participant :: "string option"
  additionalAttributes :: "string obj option"
  additionalNodes :: "BinaryNode list option"
  useUserDevicesCache :: "bool option"
  useCachedGroupMetadata :: "bool option"
  statusJidList :: "string list option"

text \<open>
  The collaborators of \<open>relayMessage\<close> defined outside of the sources at hand are
  parameters: the configuration (\<open>patchMessageBeforeSending\<close>, \<open>cachedGroupMetadata\<close>), the
  Signal repository (\<open>encryptMessage\<close>, \<open>encryptGroupMessage\<close>, \<open>jidToSignalProtocolAddress\<close>),
  the encoders and the helpers of \<open>WABinary\<close>. \<open>groupMetadata\<close> gives the ids of the
  participants of a group or fails; the other ones always return.
\<close>

record Relay = Socket +
  sock_user_id :: "string option"
  generateMessageIDV2 :: "string option \<Rightarrow> string"
  cachedGroupMetadata :: "(string \<Rightarrow> string list option) option"
  groupMetadata :: "string \<Rightarrow> error + string list"
  patchMessageBeforeSending :: "pb \<Rightarrow> string list \<Rightarrow> pb"
  normalizeMessageContent :: "pb \<Rightarrow> pb option"
  encodeWAMessage :: "pb \<Rightarrow> nat list"
  encodeNewsletterMessage :: "pb \<Rightarrow> nat list"
  encryptMessage :: "string \<Rightarrow> nat list \<Rightarrow> string \<times> nat list"
  encryptGroupMessage :: "string \<Rightarrow> nat list \<Rightarrow> string \<Rightarrow> nat list \<times> nat list"
  jidToSignalProtocolAddress :: "string \<Rightarrow> string"
  getBinaryNodeChildren :: "BinaryNode option \<Rightarrow> string \<Rightarrow> BinaryNode list"
  assertNodeErrorFree :: "BinaryNode \<Rightarrow> error option"
  isJidGroup :: "string \<Rightarrow> bool"
  areJidsSameUser :: "string \<Rightarrow> string \<Rightarrow> bool"
  encodeSignedDeviceIdentity :: "nat list"
  creds_me_lid :: "string option"
  REVOKE :: int

text \<open>
  \<open>assertSessions\<close>: the JIDs without a stored session (all of them when \<open>force\<close>) are asked
  for in one IQ, and the \<open>user\<close> nodes of the answer are injected by
  \<open>parseAndInjectE2ESessions\<close>, unless one of them carries an error.
\<close>

definition present :: "'v stored option \<Rightarrow> bool" where
  "present v = (case v of Some (Val x) \<Rightarrow> True | _ \<Rightarrow> False)"

definition parseAndInjectE2ESessions ::
  "'z Relay_scheme \<Rightarrow> BinaryNode \<Rightarrow> ('b, 'v, 'y) sock_scheme
    \<Rightarrow> (error + unit) \<times> ('b, 'v, 'y) sock_scheme" where
  "parseAndInjectE2ESessions env node s =
     (let nodes = getBinaryNodeChildren env (getBinaryNodeChild env (Some node) ''list'') ''user''
      in case for_each (\<lambda>n u. case assertNodeErrorFree env n of
                                  Some e \<Rightarrow> Inl e | None \<Rightarrow> Inr u) nodes () of
           Inl e \<Rightarrow> (Inl e, s)
         | Inr u \<Rightarrow> (Inr (), s\<lparr>injected := injected s @ nodes\<rparr>))"

definition key_iq :: "'z Relay_scheme \<Rightarrow> string list \<Rightarrow> BinaryNode" where
  "key_iq env jids =
     BinaryNode ''iq'' [(''xmlns'', ''encrypt''), (''type'', ''get''), (''to'', S_WHATSAPP_NET env)]
       (Nodes [BinaryNode ''key'' []
                 (Nodes (map (\<lambda>jid. BinaryNode ''user'' [(''jid'', jid)] Absent) jids))])"

definition assertSessions ::
  "'z Relay_scheme \<Rightarrow> ('b, 'v) SignalKeyStore \<Rightarrow> string list \<Rightarrow> bool
    \<Rightarrow> ('b, 'v, 'y) sock_scheme \<Rightarrow> (error + bool) \<times> ('b, 'v, 'y) sock_scheme" where
  "assertSessions env st jids force s =
     (case (if force then (Inr jids, s)
            else case get st ''session'' (map (jidToSignalProtocolAddress env) jids) s of
                   (Inl e, s1) \<Rightarrow> (Inl e, s1)
                 | (Inr sessions, s1) \<Rightarrow>
                     (Inr (filter (\<lambda>jid. \<not> present (map_of sessions
                                      (jidToSignalProtocolAddress env jid))) jids), s1)) of
        (Inl e, s1) \<Rightarrow> (Inl e, s1)
      | (Inr jidsRequiringFetch, s1) \<Rightarrow>
          if jidsRequiringFetch \<noteq> [] then
            (let iq = key_iq env jidsRequiringFetch;
                 s2 = s1\<lparr>queries := queries s1 @ [iq]\<rparr>
             in case query env iq of
                  Inl e \<Rightarrow> (Inl e, s2)
                | Inr result \<Rightarrow>
                    (case parseAndInjectE2ESessions env result s2 of
                       (Inl e, s3) \<Rightarrow> (Inl e, s3)
                     | (Inr u, s3) \<Rightarrow> (Inr True, s3)))
          else (Inr False, s1))"

text \<open>
  \<open>createParticipantNodes\<close>: one \<open>to\<close> node for each JID, holding the message encrypted for
  that JID; the flag tells whether one of the ciphertexts is a \<open>pkmsg\<close>.
\<close>

definition to_node :: "string obj \<Rightarrow> string \<Rightarrow> string \<times> nat list \<Rightarrow> BinaryNode" where
  "to_node extraAttrs jid enc =
     BinaryNode ''to'' [(''jid'', jid)]
       (Nodes [BinaryNode ''enc'' (assign [(''v'', ''2''), (''type'', fst enc)] extraAttrs)
                 (Bytes (snd enc))])"

definition createParticipantNodes ::
  "'z Relay_scheme \<Rightarrow> string list \<Rightarrow> pb \<Rightarrow> string obj \<Rightarrow> BinaryNode list \<times> bool" where
  "createParticipantNodes env jids message extraAttrs =
     (let patched = patchMessageBeforeSending env message jids;
          bytes = encodeWAMessage env patched
      in (map (\<lambda>jid. to_node extraAttrs jid (encryptMessage env jid bytes)) jids,
          list_ex (\<lambda>jid. fst (encryptMessage env jid bytes) = ''pkmsg'') jids))"

text \<open>
  The head of the group and status branch. Of the two promises of \<open>Promise.all\<close>, the read
  of the key store is taken first and the group metadata second (the latter does not touch
  the state of the model). For a status message, and whenever a \<open>participant\<close> is given,
  the key store is not read and \<open>senderKeyMap\<close> starts as a new empty object.
  \<open>load_senderKeyMap\<close> also tells whether \<open>senderKeyMap\<close> is \<open>result[jid]\<close>, the object that
  \<open>get\<close> returned, rather than a new one.
\<close>

definition device_server :: "bool \<Rightarrow> string" where
  "device_server isLid = (if isLid then ''lid'' else ''s.whatsapp.net'')"

definition skm_of :: "SignalData dict \<Rightarrow> string \<Rightarrow> bool obj" where
  "skm_of result jid = (case map_of result jid of Some (Val (SenderKeyMemory m)) \<Rightarrow> m | _ \<Rightarrow> [])"

definition is_skm :: "SignalData dict \<Rightarrow> string \<Rightarrow> bool" where
  "is_skm result jid =
     (case map_of result jid of Some (Val (SenderKeyMemory m)) \<Rightarrow> True | _ \<Rightarrow> False)"

definition load_senderKeyMap ::
  "('b, SignalData) SignalKeyStore \<Rightarrow> MessageRelayOptions \<Rightarrow> string \<Rightarrow> bool
    \<Rightarrow> ('b, SignalData, 'y) sock_scheme
    \<Rightarrow> (error + bool obj \<times> bool) \<times> ('b, SignalData, 'y) sock_scheme" where
  "load_senderKeyMap st opts jid isStatus s =
     (if participant opts = None \<and> \<not> isStatus
      then case get st ''sender-key-memory'' [jid] s of
             (Inl e, s1) \<Rightarrow> (Inl e, s1)
           | (Inr result, s1) \<Rightarrow> (Inr (skm_of result jid, is_skm result jid), s1)
      else (Inr ([], False), s))"

text \<open>
  \<open>senderKeyMap[jid] = true\<close> changes \<open>senderKeyMap\<close> in place. When that object is the one
  that \<open>get\<close> returned, three places may hold it, and see the marks at once, before any
  \<open>set\<close>:
  \<^item> the transaction cache, under \<open>sender-key-memory[jid]\<close>: inside a transaction \<open>get\<close>
    returns the objects of the cache;
  \<^item> \<open>mutations\<close>, under the same key: a \<open>set\<close> of the transaction puts one object into
    both \<open>transactionCache\<close> and \<open>mutations\<close>, so the entry of \<open>mutations\<close> is that object
    when it holds what the cache holds (objects are values here: two objects with the same
    content are not told apart);
  \<^item> the store: \<open>makeCacheableSignalKeyStore\<close> hands out the objects of its cache
    (\<open>useClones: false\<close>), a store that parses a file hands out copies. What an edit in
    place of the object handed out for \<open>(type, id)\<close> does to the backing state is a
    parameter, of type \<open>sharing\<close>: the identity for a store that hands out copies.
\<close>

type_synonym ('b, 'v) sharing = "string \<Rightarrow> string \<Rightarrow> 'v \<Rightarrow> 'b \<Rightarrow> 'b"

definition edit_in_place ::
  "('b, 'v) sharing \<Rightarrow> string \<Rightarrow> string \<Rightarrow> 'v \<Rightarrow> ('b, 'v, 'z) txn_scheme
    \<Rightarrow> ('b, 'v, 'z) txn_scheme" where
  "edit_in_place shared ty i v s =
     (let cached = map_of (prop_or_empty (transactionCache s) ty) i;
          pending = map_of (prop_or_empty (mutations s) ty) i
      in s\<lparr>backing := shared ty i v (backing s),
           transactionCache := (if cached \<noteq> None
                                then merge_data [(ty, [(i, Val v)])] (transactionCache s)
                                else transactionCache s),
           mutations := (if pending \<noteq> None \<and> pending = cached
                         then merge_data [(ty, [(i, Val v)])] (mutations s)
                         else mutations s)\<rparr>)"

definition load_groupData ::
  "'z Relay_scheme \<Rightarrow> MessageRelayOptions \<Rightarrow> string \<Rightarrow> bool \<Rightarrow> error + string list" where
  "load_groupData env opts jid isStatus =
     (case (if useCachedGroupMetadata opts \<noteq> Some False \<and> \<not> isStatus
            then (case cachedGroupMetadata env of None \<Rightarrow> None | Some f \<Rightarrow> f jid)
            else None) of
        Some ps \<Rightarrow> Inr ps
      | None \<Rightarrow> groupMetadata env jid)"

definition participantsList :: "MessageRelayOptions \<Rightarrow> string list \<Rightarrow> bool \<Rightarrow> string list" where
  "participantsList opts groupData isStatus =
     (if \<not> isStatus then groupData else []) @
     (if isStatus then (case statusJidList opts of None \<Rightarrow> [] | Some l \<Rightarrow> l) else [])"

text \<open>
  \<open>senderKeyStep\<close> is one iteration of the loop over \<open>devices\<close>, on the pair
  (\<open>senderKeyJids\<close>, \<open>senderKeyMap\<close>); \<open>group_cipher\<close> is the pair
  (\<open>ciphertext\<close>, \<open>senderKeyDistributionMessage\<close>) of \<open>encryptGroupMessage\<close>.
\<close>

definition senderKeyMsg :: "string \<Rightarrow> nat list \<Rightarrow> pb" where
  "senderKeyMsg destinationJid senderKeyDistributionMessage =
     Obj [(''senderKeyDistributionMessage'',
           Obj [(''axolotlSenderKeyDistributionMessage'', Data senderKeyDistributionMessage),
                (''groupId'', Str destinationJid)])]"

definition device_jid :: "'z Relay_scheme \<Rightarrow> bool \<Rightarrow> JidWithDevice \<Rightarrow> string" where
  "device_jid env isLid d = jidEncode env (user d) (device_server isLid) (device d)"

definition senderKeyStep ::
  "'z Relay_scheme \<Rightarrow> bool \<Rightarrow> bool \<Rightarrow> JidWithDevice \<Rightarrow> string list \<times> bool obj
    \<Rightarrow> string list \<times> bool obj" where
  "senderKeyStep env isLid forced d acc =
     (let jid = device_jid env isLid d
      in if map_of (snd acc) jid \<noteq> Some True \<or> forced
         then (fst acc @ [jid], AList.update jid True (snd acc))
         else acc)"

definition group_cipher ::
  "'z Relay_scheme \<Rightarrow> pb \<Rightarrow> bool \<Rightarrow> string \<Rightarrow> string \<Rightarrow> JidWithDevice list
    \<Rightarrow> nat list \<times> nat list" where
  "group_cipher env message isLid destinationJid meId devices =
     (let patched = patchMessageBeforeSending env message (map (device_jid env isLid) devices);
          bytes = encodeWAMessage env patched
      in encryptGroupMessage env destinationJid bytes meId)"

definition skmsg_node :: "nat list \<Rightarrow> BinaryNode" where
  "skmsg_node ciphertext = BinaryNode ''enc'' [(''v'', ''2''), (''type'', ''skmsg'')] (Bytes ciphertext)"

text \<open>
  The group and status branch: it returns the \<open>participants\<close> nodes, \<open>binaryNodeContent\<close> and
  \<open>shouldIncludeDeviceIdentity\<close>. Its last statement,
  \<open>authState.keys.set({'sender-key-memory': {[jid]: senderKeyMap}})\<close>, is not guarded.
  The marks of the loop over \<open>devices\<close> are made in place, before \<open>assertSessions\<close>: they
  stay when a later step of the branch throws.
\<close>

definition relay_group ::
  "'z Relay_scheme \<Rightarrow> ('b, SignalData) SignalKeyStore \<Rightarrow> ('b, SignalData) sharing
    \<Rightarrow> MessageRelayOptions \<Rightarrow> string \<Rightarrow> pb
    \<Rightarrow> bool \<Rightarrow> bool \<Rightarrow> string \<Rightarrow> string \<Rightarrow> JidWithDevice list \<Rightarrow> string obj
    \<Rightarrow> ('b, SignalData, 'y) sock_scheme
    \<Rightarrow> (error + BinaryNode list \<times> BinaryNode list \<times> bool) \<times> ('b, SignalData, 'y) sock_scheme" where
  "relay_group env st shared opts jid message isStatus isLid destinationJid meId devices0
       extraAttrs s =
     (case load_senderKeyMap st opts jid isStatus s of
        (Inl e, s1) \<Rightarrow> (Inl e, s1)
      | (Inr (senderKeyMap, fromGet), s1) \<Rightarrow>
     (case load_groupData env opts jid isStatus of
        Inl e \<Rightarrow> (Inl e, s1)
      | Inr groupData \<Rightarrow>
     (case (if participant opts = None
            then case getUSyncDevices env (participantsList opts groupData isStatus)
                        (useUserDevicesCache opts \<noteq> Some False) False s1 of
                   (Inl e, s2) \<Rightarrow> (Inl e, s2)
                 | (Inr additionalDevices, s2) \<Rightarrow> (Inr (devices0 @ additionalDevices), s2)
            else (Inr devices0, s1)) of
        (Inl e, s2) \<Rightarrow> (Inl e, s2)
      | (Inr devices, s2) \<Rightarrow>
     (let enc = group_cipher env message isLid destinationJid meId devices;
          sel = fold (senderKeyStep env isLid (participant opts \<noteq> None)) devices
                  ([], senderKeyMap);
          s2' = (if fromGet \<and> fst sel \<noteq> []
                 then edit_in_place shared ''sender-key-memory'' jid (SenderKeyMemory (snd sel)) s2
                 else s2)
      in case (if fst sel \<noteq> []
               then case assertSessions env st (fst sel) False s2' of
                      (Inl e, s3) \<Rightarrow> (Inl e, s3)
                    | (Inr u, s3) \<Rightarrow>
                        (Inr (createParticipantNodes env (fst sel)
                                (senderKeyMsg destinationJid (snd enc)) extraAttrs), s3)
               else (Inr ([], False), s2')) of
           (Inl e, s3) \<Rightarrow> (Inl e, s3)
         | (Inr (nodes, pk), s3) \<Rightarrow>
             (case set' st [(''sender-key-memory'', [(jid, Val (SenderKeyMemory (snd sel)))])] s3 of
                (Inl e, s4) \<Rightarrow> (Inl e, s4)
              | (Inr u, s4) \<Rightarrow> (Inr (nodes, [skmsg_node (fst enc)], pk), s4))))))"

text \<open>The newsletter branch and the branch of a message to a single user.\<close>

definition relay_newsletter ::
  "'z Relay_scheme \<Rightarrow> string option \<Rightarrow> pb \<Rightarrow> string option
    \<Rightarrow> string option \<times> pb \<times> BinaryNode list" where
  "relay_newsletter env msgId message mediaType =
     (let edited = field (field (Some message) ''protocolMessage'') ''editedMessage'';
          r1 = (if truthy_pb edited
                then (case field (field (field (Some message) ''protocolMessage'') ''key'') ''id'' of
                        Some (Str i) \<Rightarrow> Some i | _ \<Rightarrow> None,
                      case edited of Some m \<Rightarrow> m | None \<Rightarrow> message)
                else (msgId, message));
          r2 = (if field (field (Some (snd r1)) ''protocolMessage'') ''type'' = Some (Number (REVOKE env))
                then (case field (field (field (Some (snd r1)) ''protocolMessage'') ''key'') ''id'' of
                        Some (Str i) \<Rightarrow> Some i | _ \<Rightarrow> None,
                      Obj [])
                else r1);
          patched = patchMessageBeforeSending env (snd r2) [];
          bytes = encodeNewsletterMessage env patched
      in (fst r2, snd r2,
          [BinaryNode ''plaintext''
             (case mediaType of None \<Rightarrow> [] | Some m \<Rightarrow> [(''mediatype'', m)]) (Bytes bytes)]))"

definition direct_jid ::
  "'z Relay_scheme \<Rightarrow> bool \<Rightarrow> string \<Rightarrow> JidWithDevice \<Rightarrow> error + bool \<times> string" where
  "direct_jid env isLid meUser d =
     (let isMe = (user d = meUser)
      in if isMe \<and> isLid
         then (case creds_me_lid env of
                 None \<Rightarrow> Inl TypeError
               | Some lid \<Rightarrow>
                   Inr (isMe,
                        jidEncode env
                          (if takeWhile (\<lambda>c. c \<noteq> CHR '':'') lid \<noteq> []
                           then takeWhile (\<lambda>c. c \<noteq> CHR '':'') lid else user d)
                          (device_server isLid) (device d)))
         else Inr (isMe, jidEncode env (user d) (device_server isLid) (device d)))"

definition is_peer :: "MessageRelayOptions \<Rightarrow> bool" where
  "is_peer opts =
     (case additionalAttributes opts of
        None \<Rightarrow> False
      | Some a \<Rightarrow> map_of a ''category'' = Some ''peer'')"

definition relay_direct ::
  "'z Relay_scheme \<Rightarrow> ('b, SignalData) SignalKeyStore \<Rightarrow> MessageRelayOptions \<Rightarrow> string \<Rightarrow> pb
    \<Rightarrow> bool \<Rightarrow> string \<Rightarrow> string \<Rightarrow> string \<Rightarrow> JidWithDevice list \<Rightarrow> string obj
    \<Rightarrow> ('b, SignalData, 'y) sock_scheme
    \<Rightarrow> (error + BinaryNode list \<times> bool) \<times> ('b, SignalData, 'y) sock_scheme" where
  "relay_direct env st opts jid message isLid user' destinationJid meId devices0 extraAttrs s =
     (case jidDecode env (Some meId) of
        None \<Rightarrow> (Inl TypeError, s)
      | Some me \<Rightarrow>
     (case (if participant opts = None
            then (let seeded = devices0 @ [\<lparr>user = user', device = None\<rparr>] @
                               (if user' \<noteq> user me then [\<lparr>user = user me, device = None\<rparr>] else [])
                  in if \<not> is_peer opts
                     then case getUSyncDevices env [meId, jid]
                                 (useUserDevicesCache opts \<noteq> Some False) True s of
                            (Inl e, s1) \<Rightarrow> (Inl e, s1)
                          | (Inr additionalDevices, s1) \<Rightarrow> (Inr (seeded @ additionalDevices), s1)
                     else (Inr seeded, s))
            else (Inr devices0, s)) of
        (Inl e, s1) \<Rightarrow> (Inl e, s1)
      | (Inr devices, s1) \<Rightarrow>
     (case for_each (\<lambda>d acc. case direct_jid env isLid (user me) d of
                                Inl e \<Rightarrow> Inl e | Inr j \<Rightarrow> Inr (acc @ [j])) devices [] of
        Inl e \<Rightarrow> (Inl e, s1)
      | Inr allJids \<Rightarrow>
     (case assertSessions env st (map snd allJids) False s1 of
        (Inl e, s2) \<Rightarrow> (Inl e, s2)
      | (Inr u, s2) \<Rightarrow>
          (let meMsg = Obj [(''deviceSentMessage'',
                             Obj [(''destinationJid'', Str destinationJid), (''message'', message)])];
               meNodes = createParticipantNodes env (map snd (filter fst allJids)) meMsg extraAttrs;
               otherNodes = createParticipantNodes env
                              (map snd (filter (\<lambda>j. \<not> fst j) allJids)) message extraAttrs
           in (Inr (fst meNodes @ fst otherNodes, snd meNodes \<or> snd otherNodes), s2))))))"

text \<open>
  The stanza: its attributes (\<open>id\<close>, \<open>type\<close>, the additional attributes, then the routing
  attributes) and its content.
\<close>

definition routing :: "'z Relay_scheme \<Rightarrow> MessageRelayOptions \<Rightarrow> string \<Rightarrow> string \<Rightarrow> string obj" where
  "routing env opts destinationJid meId =
     (case participant opts of
        Some p \<Rightarrow>
          if isJidGroup env destinationJid then [(''to'', destinationJid), (''participant'', p)]
          else if areJidsSameUser env p meId then [(''to'', p), (''recipient'', destinationJid)]
          else [(''to'', p)]
      | None \<Rightarrow> [(''to'', destinationJid)])"

definition build_stanza ::
  "'z Relay_scheme \<Rightarrow> MessageRelayOptions \<Rightarrow> string option \<Rightarrow> string \<Rightarrow> string \<Rightarrow> string
    \<Rightarrow> BinaryNode list \<Rightarrow> BinaryNode list \<Rightarrow> bool \<Rightarrow> BinaryNode" where
  "build_stanza env opts msgId type' destinationJid meId participants binaryNodeContent
       shouldIncludeDeviceIdentity =
     BinaryNode ''message''
       (assign
          (assign ((case msgId of None \<Rightarrow> [] | Some i \<Rightarrow> [(''id'', i)]) @ [(''type'', type')])
             (case additionalAttributes opts of None \<Rightarrow> [] | Some a \<Rightarrow> a))
          (routing env opts destinationJid meId))
       (Nodes
          (binaryNodeContent @
           (if participants \<noteq> []
            then (if is_peer opts
                  then (case participants of
                          BinaryNode t a (Nodes (peerNode # rest)) # ps \<Rightarrow> [peerNode]
                        | _ \<Rightarrow> [])
                  else [BinaryNode ''participants'' [] (Nodes participants)])
            else []) @
           (if shouldIncludeDeviceIdentity
            then [BinaryNode ''device-identity'' [] (Bytes (encodeSignedDeviceIdentity env))]
            else []) @
           (case additionalNodes opts of None \<Rightarrow> [] | Some ns \<Rightarrow> ns)))"

text \<open>
  \<open>relay_work\<close> is the function passed to \<open>authState.keys.transaction\<close>; it ends with
  \<open>sendNode(stanza)\<close>. \<open>relayMessage\<close> returns the message id.
\<close>

definition extraAttrs_of :: "'z Relay_scheme \<Rightarrow> pb \<Rightarrow> string obj" where
  "extraAttrs_of env message =
     (case getMediaType message of None \<Rightarrow> [] | Some m \<Rightarrow> [(''mediatype'', m)]) @
     (if truthy_pb (field (normalizeMessageContent env message) ''pinInChatMessage'')
      then [(''decrypt-fail'', ''hide'')] else [])"

definition destination_of :: "'z Relay_scheme \<Rightarrow> string \<Rightarrow> FullJid \<Rightarrow> string" where
  "destination_of env jid decoded =
     (if jid \<noteq> ''status@broadcast''
      then jidEncode env (user decoded)
             (if server decoded = ''lid'' then ''lid''
              else if server decoded = ''g.us'' then ''g.us''
              else if server decoded = ''newsletter'' then ''newsletter''
              else ''s.whatsapp.net'') None
      else ''status@broadcast'')"

definition relay_work ::
  "'z Relay_scheme \<Rightarrow> ('b, SignalData) SignalKeyStore \<Rightarrow> ('b, SignalData) sharing
    \<Rightarrow> MessageRelayOptions \<Rightarrow> string \<Rightarrow> pb
    \<Rightarrow> FullJid \<Rightarrow> string \<Rightarrow> string option \<Rightarrow> JidWithDevice list
    \<Rightarrow> ('b, SignalData, 'y) sock_scheme
    \<Rightarrow> (error + string option) \<times> ('b, SignalData, 'y) sock_scheme" where
  "relay_work env st shared opts jid message decoded meId msgId devices0 s =
     (let isNewsletter = (server decoded = ''newsletter'');
          isGroup = (server decoded = ''g.us'');
          isStatus = (jid = ''status@broadcast'');
          isLid = (server decoded = ''lid'');
          destinationJid = destination_of env jid decoded;
          mediaType = getMediaType message;
          extraAttrs = extraAttrs_of env message
      in case (if isGroup \<or> isStatus
               then case relay_group env st shared opts jid message isStatus isLid destinationJid
                           meId devices0 extraAttrs s of
                      (Inl e, s1) \<Rightarrow> (Inl e, s1)
                    | (Inr (participants, binaryNodeContent, pk), s1) \<Rightarrow>
                        (Inr (msgId, message, participants, binaryNodeContent, pk), s1)
               else if isNewsletter
               then (case relay_newsletter env msgId message mediaType of
                       (msgId', message', binaryNodeContent) \<Rightarrow>
                         (Inr (msgId', message', [], binaryNodeContent, False), s))
               else case relay_direct env st opts jid message isLid (user decoded) destinationJid
                           meId devices0 extraAttrs s of
                      (Inl e, s1) \<Rightarrow> (Inl e, s1)
                    | (Inr (participants, pk), s1) \<Rightarrow>
                        (Inr (msgId, message, participants, [], pk), s1)) of
           (Inl e, s1) \<Rightarrow> (Inl e, s1)
         | (Inr (msgId', message', participants, binaryNodeContent, pk), s1) \<Rightarrow>
             (case (if isNewsletter then getTypeMessage (Some message') else Inr ''text'') of
                Inl e \<Rightarrow> (Inl e, s1)
              | Inr type' \<Rightarrow>
                  (Inr msgId',
                   s1\<lparr>sent := sent s1 @
                        [build_stanza env opts msgId' type' destinationJid meId participants
                           binaryNodeContent pk]\<rparr>)))"

definition relayMessage ::
  "'z Relay_scheme \<Rightarrow> ('b, SignalData) SignalKeyStore \<Rightarrow> ('b, SignalData) sharing
    \<Rightarrow> TransactionCapabilityOptions
    \<Rightarrow> string \<Rightarrow> pb \<Rightarrow> MessageRelayOptions \<Rightarrow> ('b, SignalData, 'y) sock_scheme
    \<Rightarrow> (error + string option) \<times> ('b, SignalData, 'y) sock_scheme" where
  "relayMessage env st shared tco jid message opts s =
     (case creds_me_id env of
        None \<Rightarrow> (Inl TypeError, s)
      | Some meId \<Rightarrow>
     (case jidDecode env (Some jid) of
        None \<Rightarrow> (Inl TypeError, s)
      | Some decoded \<Rightarrow>
     (let msgId = (case messageId opts of
                     Some i \<Rightarrow> if i \<noteq> [] then i else generateMessageIDV2 env (sock_user_id env)
                   | None \<Rightarrow> generateMessageIDV2 env (sock_user_id env))
      in case (case participant opts of
                 None \<Rightarrow> Inr []
               | Some p \<Rightarrow>
                   (case jidDecode env (Some p) of
                      None \<Rightarrow> Inl TypeError
                    | Some pd \<Rightarrow> Inr [\<lparr>user = user pd, device = device pd\<rparr>])) of
           Inl e \<Rightarrow> (Inl e, s)
         | Inr devices0 \<Rightarrow>
             transaction st tco
               (relay_work env st shared opts jid message decoded meId (Some msgId) devices0) s)))"

text \<open>
  Test doubles: a group \<open>x@g.us\<close> of two users \<open>a\<close> and \<open>b\<close>, who have two devices each
  (\<open>test_query\<close>), and a store whose \<open>sender-key-memory['x@g.us']\<close> marks the devices
  \<open>a\<close> and \<open>b:1\<close>. \<open>by_reference\<close> makes \<open>test_store\<close> a store that hands out its own
  objects, \<open>by_value\<close> one that hands out copies. With \<open>offline_keys\<close> the IQ of
  \<open>assertSessions\<close> fails.
\<close>

definition by_reference :: "('v test_backing, 'v) sharing" where
  "by_reference ty i v b =
     (if map_of (prop_or_empty (contents b) ty) i \<noteq> None
      then b\<lparr>contents := merge_data [(ty, [(i, Val v)])] (contents b)\<rparr>
      else b)"

definition test_getBinaryNodeChildren :: "BinaryNode option \<Rightarrow> string \<Rightarrow> BinaryNode list" where
  "test_getBinaryNodeChildren node childTag =
     (case node of
        Some (BinaryNode t a (Nodes cs)) \<Rightarrow> filter (\<lambda>c. tag c = childTag) cs
      | _ \<Rightarrow> [])"

definition test_relay :: Relay where
  "test_relay =
     \<lparr>jidDecode = test_jidDecode, getBinaryNodeChild = test_getBinaryNodeChild,
      toNumber = test_toNumber, S_WHATSAPP_NET = ''@s.whatsapp.net'',
      jidNormalizedUser = test_jidNormalizedUser, jidEncode = test_jidEncode,
      query = test_query, messageTag = (\<lambda>n. ''tag'' @ toString (int n)),
      creds_me_id = Some ''me:3@s.whatsapp.net'',
      sock_user_id = Some ''me:3@s.whatsapp.net'',
      generateMessageIDV2 = (\<lambda>u. ''3EB0'' ),
      cachedGroupMetadata = None,
      groupMetadata = (\<lambda>jid. if jid = ''x@g.us''
                                then Inr [''a@s.whatsapp.net'', ''b@s.whatsapp.net''] else Inr []),
      patchMessageBeforeSending = (\<lambda>m jids. m),
      normalizeMessageContent = Some,
      encodeWAMessage = (\<lambda>m. [size m]),
      encodeNewsletterMessage = (\<lambda>m. [size m]),
      encryptMessage = (\<lambda>jid bytes. (if jid = ''b:1@s.whatsapp.net'' then ''pkmsg'' else ''msg'',
                                        length jid # bytes)),
      encryptGroupMessage = (\<lambda>g bytes me. (length g # bytes, [length me])),
      jidToSignalProtocolAddress = (\<lambda>jid. jid),
      getBinaryNodeChildren = test_getBinaryNodeChildren,
      assertNodeErrorFree = (\<lambda>n. None),
      isJidGroup = (\<lambda>jid. case test_jidDecode (Some jid) of
                               None \<Rightarrow> False | Some d \<Rightarrow> server d = ''g.us''),
      areJidsSameUser = (\<lambda>a b. map_option user (test_jidDecode (Some a)) =
                                  map_option user (test_jidDecode (Some b))),
      encodeSignedDeviceIdentity = [9],
      creds_me_lid = None,
      REVOKE = 0\<rparr>"

definition no_options :: MessageRelayOptions where
  "no_options =
     \<lparr>messageId = None, participant = None, additionalAttributes = None, additionalNodes = None,
      useUserDevicesCache = None, useCachedGroupMetadata = None, statusJidList = None\<rparr>"


definition half_known :: "(SignalData test_backing, SignalData) sock" where
  "half_known = init_sock
     \<lparr>contents = [(''sender-key-memory'',
         [(''x@g.us'', Val (SenderKeyMemory [(''a@s.whatsapp.net'', True),
                                               (''b:1@s.whatsapp.net'', True)]))])],
      failing = 0\<rparr> []"

definition by_value :: "('b, 'v) sharing" where
  "by_value ty i v b = b"

definition offline_keys :: Relay where
  "offline_keys =
     test_relay\<lparr>query := (\<lambda>iq. if map_of (attrs iq) ''xmlns'' = Some ''encrypt''
                                then Inl (Failure ''timed out'') else test_query iq)\<rparr>"

definition hello :: pb where
  "hello = Obj [(''conversation'', Str ''hi'')]"


definition stored_memory ::
  "('b, SignalData) SignalKeyStore \<Rightarrow> string \<Rightarrow> 'b \<Rightarrow> bool obj option" where
  "stored_memory st jid b =
     (case fst (store_get st ''sender-key-memory'' [jid] b) of
        Inr res \<Rightarrow> (case map_of res jid of Some (Val (SenderKeyMemory m)) \<Rightarrow> Some m | _ \<Rightarrow> None)
      | Inl e \<Rightarrow> None)"







section \<open>Properties of the transaction layer\<close>


lemma state_set_fields:
  "state_set st d s = (r, s') \<Longrightarrow>
     calls s' = calls s @ [SetCall d (\<not> isl r)] \<and> mutations s' = mutations s \<and>
     transactionCache s' = transactionCache s \<and>
     transactionsInProgress s' = transactionsInProgress s \<and>
     dbQueriesInTransaction s' = dbQueriesInTransaction s"
  by (auto simp: state_set_def split: prod.splits)

lemma state_get_fields:
  "state_get st ty ids s = (r, s') \<Longrightarrow>
     calls s' = calls s @ [GetCall ty ids] \<and> mutations s' = mutations s \<and>
     transactionCache s' = transactionCache s \<and>
     transactionsInProgress s' = transactionsInProgress s \<and>
     dbQueriesInTransaction s' = dbQueriesInTransaction s"
  by (auto simp: state_get_def split: prod.splits)

lemma fetch_fields:
  "fetch st ty ids s = (r, s') \<Longrightarrow>
     calls s' = calls s @ [GetCall ty ids] \<and> mutations s' = mutations s \<and>
     transactionsInProgress s' = transactionsInProgress s"
  by (auto simp: fetch_def split: prod.splits sum.splits dest!: state_get_fields)

lemma get_in_txn_fields:
  "get st ty ids s = (r, s') \<Longrightarrow> isInTransaction s \<Longrightarrow>
     (calls s' = calls s \<or> (\<exists>ids'. calls s' = calls s @ [GetCall ty ids'])) \<and>
     mutations s' = mutations s \<and> transactionsInProgress s' = transactionsInProgress s"
  by (auto simp: get_def Let_def split: prod.splits option.splits if_splits dest!: fetch_fields)


lemma set_in_txn_fields:
  "set' st d s = (r, s') \<Longrightarrow> isInTransaction s \<Longrightarrow>
     r = Inr () \<and> calls s' = calls s \<and> transactionsInProgress s' = transactionsInProgress s \<and>
     mutations s' = merge_data d (mutations s) \<and>
     transactionCache s' = merge_data d (transactionCache s)"
  by (auto simp: set'_def)

lemma finally_calls: "calls (finally' s) = calls s"
  by (simp add: finally'_def Let_def)

lemma finally_nested:
  "transactionsInProgress s \<noteq> 1 \<Longrightarrow>
     finally' s = s\<lparr>transactionsInProgress := transactionsInProgress s - 1\<rparr>"
  by (simp add: finally'_def Let_def)

lemma finally_outermost:
  "transactionsInProgress s = 1 \<Longrightarrow>
     transactionsInProgress (finally' s) = 0 \<and> transactionCache (finally' s) = [] \<and>
     mutations (finally' s) = [] \<and> dbQueriesInTransaction (finally' s) = 0"
  by (simp add: finally'_def Let_def)

lemma run_in_txn:
  "0 < transactionsInProgress s \<Longrightarrow> run st tco w s = (r, s') \<Longrightarrow>
     transactionsInProgress s' = transactionsInProgress s \<and>
     (\<exists>evs. calls s' = calls s @ evs \<and> (\<forall>c\<in>set evs. \<not> is_SetCall c))"
proof (induction w arbitrary: s r s')
  case (Return x)
  then show ?case by simp
next
  case (Throw x)
  then show ?case by simp
next
  case (Get ty ids k)
  obtain g s1 where g: "get st ty ids s = (g, s1)" by (cases "get st ty ids s")
  have inT: "isInTransaction s" using Get.prems(1) by (simp add: isInTransaction_def)
  from get_in_txn_fields [OF g inT]
  have f: "transactionsInProgress s1 = transactionsInProgress s"
    and c: "\<exists>evs. calls s1 = calls s @ evs \<and> (\<forall>c\<in>set evs. \<not> is_SetCall c)"
    by auto
  show ?case
  proof (cases g)
    case (Inl e)
    with Get.prems(2) g have "s' = s1" by simp
    with f c show ?thesis by simp
  next
    case (Inr d)
    with Get.prems(2) g have r: "run st tco (k d) s1 = (r, s')" by simp
    have "0 < transactionsInProgress s1" using f Get.prems(1) by simp
    from Get.IH [OF _ this r] f c show ?thesis by fastforce
  qed
next
  case (Set d w)
  have inT: "isInTransaction s" using Set.prems(1) by (simp add: isInTransaction_def)
  obtain g s1 where g: "set' st d s = (g, s1)" by (cases "set' st d s")
  from set_in_txn_fields [OF g inT]
  have f: "transactionsInProgress s1 = transactionsInProgress s" and c: "calls s1 = calls s"
    and gr: "g = Inr ()" by auto
  from Set.prems(2) g gr have r: "run st tco w s1 = (r, s')" by simp
  have "0 < transactionsInProgress s1" using f Set.prems(1) by simp
  from Set.IH [OF this r] f c show ?case by simp
next
  case (Transaction w k)
  let ?s1 = "s\<lparr>transactionsInProgress := transactionsInProgress s + 1\<rparr>"
  obtain q s2 where q: "run st tco w ?s1 = (q, s2)" by (cases "run st tco w ?s1")
  have pos1: "0 < transactionsInProgress ?s1" using Transaction.prems(1) by simp
  from Transaction.IH(1) [OF pos1 q]
  have f2: "transactionsInProgress s2 = transactionsInProgress s + 1"
    and c2: "\<exists>evs. calls s2 = calls s @ evs \<and> (\<forall>c\<in>set evs. \<not> is_SetCall c)"
    by auto
  have ne1: "transactionsInProgress s2 \<noteq> 1" using f2 Transaction.prems(1) by simp
  have t: "transaction st tco (run st tco w) s = (q, finally' s2)"
    using q ne1 by (cases q) (simp_all add: transaction_def)
  have f3: "transactionsInProgress (finally' s2) = transactionsInProgress s"
    using finally_nested [OF ne1] f2 by simp
  from Transaction.prems(2) t have r: "run st tco (k q) (finally' s2) = (r, s')" by simp
  have pos3: "0 < transactionsInProgress (finally' s2)" using f3 Transaction.prems(1) by simp
  from Transaction.IH(2) [OF _ pos3 r] f3 c2 finally_calls [of s2] show ?case by fastforce
qed




lemma commit_fields:
  "mutations (commit st tco n s) = mutations s \<and>
   transactionCache (commit st tco n s) = transactionCache s \<and>
   transactionsInProgress (commit st tco n s) = transactionsInProgress s \<and>
   dbQueriesInTransaction (commit st tco n s) = dbQueriesInTransaction s \<and>
   (\<exists>evs. calls (commit st tco n s) = calls s @ evs)"
proof (induction n arbitrary: s)
  case 0
  then show ?case by simp
next
  case (Suc n)
  obtain r s1 where r: "state_set st (mutations s) s = (r, s1)"
    by (cases "state_set st (mutations s) s")
  note f = state_set_fields [OF r]
  show ?case
  proof (cases r)
    case (Inr u)
    with r f show ?thesis by simp
  next
    case (Inl e)
    let ?s2 = "s1\<lparr>calls := calls s1 @ [Delay (delayBetweenTriesMs tco)]\<rparr>"
    have "commit st tco (Suc n) s = commit st tco n ?s2" using r Inl by simp
    with Suc.IH [of ?s2] f show ?thesis by auto
  qed
qed

lemma commit_all_fail:
  "\<forall>c\<in>set (new_calls s (commit st tco n s)). \<not> is_success c \<Longrightarrow>
     calls (commit st tco n s) =
       calls s @ concat (replicate n [SetCall (mutations s) False, Delay (delayBetweenTriesMs tco)])"
proof (induction n arbitrary: s)
  case 0
  then show ?case by simp
next
  case (Suc n)
  obtain r s1 where r: "state_set st (mutations s) s = (r, s1)"
    by (cases "state_set st (mutations s) s")
  note f = state_set_fields [OF r]
  show ?case
  proof (cases r)
    case (Inr u)
    with r f have "new_calls s (commit st tco (Suc n) s) = [SetCall (mutations s) True]"
      by (simp add: new_calls_def)
    with Suc.prems show ?thesis by simp
  next
    case (Inl e)
    let ?s2 = "s1\<lparr>calls := calls s1 @ [Delay (delayBetweenTriesMs tco)]\<rparr>"
    have eq: "commit st tco (Suc n) s = commit st tco n ?s2" using r Inl by simp
    obtain evs where evs: "calls (commit st tco n ?s2) = calls ?s2 @ evs"
      using commit_fields [of st tco n ?s2] by blast
    have c2: "calls ?s2 = calls s @ [SetCall (mutations s) False, Delay (delayBetweenTriesMs tco)]"
      using f Inl by simp
    have "new_calls ?s2 (commit st tco n ?s2) = evs" using evs by (simp add: new_calls_def)
    moreover have "new_calls s (commit st tco (Suc n) s) =
        [SetCall (mutations s) False, Delay (delayBetweenTriesMs tco)] @ evs"
      using eq evs c2 by (simp add: new_calls_def)
    ultimately have "\<forall>c\<in>set (new_calls ?s2 (commit st tco n ?s2)). \<not> is_success c"
      using Suc.prems by simp
    from Suc.IH [OF this] have "calls (commit st tco n ?s2) =
       calls ?s2 @ concat (replicate n [SetCall (mutations ?s2) False, Delay (delayBetweenTriesMs tco)])" .
    moreover have "mutations ?s2 = mutations s" using f by simp
    ultimately show ?thesis using eq c2 by simp
  qed
qed

lemmas model_defs = transaction_def set'_def get_def fetch_def collect_def isInTransaction_def init_txn_def
      merge_data_def assign_def prop_or_empty_def finally'_def state_set_def state_get_def test_store_def


text \<open>
  Claim C3. When the workload of a transaction throws, the call makes no \<open>set\<close> on
  the underlying store (the recorded \<open>SetCall\<close>s are those from before the call), the
  caller gets the failure that was raised, and when the transaction is the outermost one
  \<open>transactionCache\<close> and \<open>mutations\<close> are empty on exit. The workload is any tree of
  \<open>get\<close>, \<open>set\<close> and nested \<open>transaction\<close> calls.
\<close>

theorem transaction_throw_no_commit:
  assumes "0 \<le> transactionsInProgress s"
    and "run st tco w (s\<lparr>transactionsInProgress := transactionsInProgress s + 1\<rparr>) = (Inl e, s2)"
  shows "fst (transaction st tco (run st tco w) s) = Inl e \<and>
         filter is_SetCall (calls (snd (transaction st tco (run st tco w) s))) =
           filter is_SetCall (calls s) \<and>
         (transactionsInProgress s = 0 \<longrightarrow>
            transactionCache (snd (transaction st tco (run st tco w) s)) = [] \<and>
            mutations (snd (transaction st tco (run st tco w) s)) = [] \<and>
            transactionsInProgress (snd (transaction st tco (run st tco w) s)) = 0)"
proof -
  let ?s1 = "s\<lparr>transactionsInProgress := transactionsInProgress s + 1\<rparr>"
  have pos: "0 < transactionsInProgress ?s1" using assms(1) by simp
  from run_in_txn [OF pos assms(2)]
  obtain evs where tip: "transactionsInProgress s2 = transactionsInProgress s + 1"
    and c: "calls s2 = calls s @ evs" and ns: "\<forall>c\<in>set evs. \<not> is_SetCall c"
    by auto
  have t: "transaction st tco (run st tco w) s = (Inl e, finally' s2)"
    using assms(2) by (simp add: transaction_def)
  have "filter is_SetCall (calls (finally' s2)) = filter is_SetCall (calls s)"
    using c ns by (simp add: finally_calls)
  moreover have "transactionsInProgress s = 0 \<longrightarrow>
      transactionCache (finally' s2) = [] \<and> mutations (finally' s2) = [] \<and>
      transactionsInProgress (finally' s2) = 0"
    using tip finally_outermost [of s2] by simp
  ultimately show ?thesis using t by simp
qed

theorem transaction_throw_no_commit_witness:
  "fst (transaction test_store tco3
          (run test_store tco3 (Set session_a (Throw (Failure ''boom'')) :: (nat, unit) work))
          (init_txn \<lparr>contents = [], failing = 0\<rparr>)) = Inl (Failure ''boom'') \<and>
   calls (snd (transaction test_store tco3
          (run test_store tco3 (Set session_a (Throw (Failure ''boom'')) :: (nat, unit) work))
          (init_txn \<lparr>contents = [], failing = 0\<rparr>))) = [] \<and>
   mutations (snd (transaction test_store tco3
          (run test_store tco3 (Set session_a (Throw (Failure ''boom'')) :: (nat, unit) work))
          (init_txn \<lparr>contents = [], failing = 0\<rparr>))) = []"
proof -
  let ?s = "init_txn \<lparr>contents = [], failing = 0\<rparr> :: (nat test_backing, nat) txn"
  let ?w = "Set session_a (Throw (Failure ''boom'')) :: (nat, unit) work"
  let ?s1 = "?s\<lparr>transactionsInProgress := transactionsInProgress ?s + 1\<rparr>"
  have h1: "0 \<le> transactionsInProgress ?s" by (simp add: init_txn_def)
  have h2: "run test_store tco3 ?w ?s1 = (Inl (Failure ''boom''), snd (run test_store tco3 ?w ?s1))"
    by (simp add: model_defs)
  have c: "calls (snd (transaction test_store tco3 (run test_store tco3 ?w) ?s)) = []"
    by (simp add: model_defs)
  from transaction_throw_no_commit [OF h1 h2] c show ?thesis by (simp add: init_txn_def)
qed


text \<open>
  Claim C1, as amended. When every try of the commit fails, the outermost transaction
  does not throw: it returns the result of the workload after exactly
  \<open>maxCommitRetries\<close> failed calls of \<open>set(mutations)\<close>, each followed by the delay,
  and leaves the layer out of any transaction with \<open>transactionCache\<close> and
  \<open>mutations\<close> emptied, so a later transaction starts afresh.
\<close>

theorem commit_failure_is_swallowed:
  assumes "transactionsInProgress s = 0"
    and "run st tco w (s\<lparr>transactionsInProgress := transactionsInProgress s + 1\<rparr>) = (Inr r, s2)"
    and "mutations s2 \<noteq> []"
    and "\<forall>c\<in>set (new_calls s2 (commit st tco (maxCommitRetries tco) s2)). \<not> is_success c"
  shows "fst (transaction st tco (run st tco w) s) = Inr r \<and>
         calls (snd (transaction st tco (run st tco w) s)) =
           calls s2 @ concat (replicate (maxCommitRetries tco)
              [SetCall (mutations s2) False, Delay (delayBetweenTriesMs tco)]) \<and>
         transactionsInProgress (snd (transaction st tco (run st tco w) s)) = 0 \<and>
         transactionCache (snd (transaction st tco (run st tco w) s)) = [] \<and>
         mutations (snd (transaction st tco (run st tco w) s)) = []"
proof -
  let ?s1 = "s\<lparr>transactionsInProgress := transactionsInProgress s + 1\<rparr>"
  let ?c = "commit st tco (maxCommitRetries tco) s2"
  have pos: "0 < transactionsInProgress ?s1" using assms(1) by simp
  from run_in_txn [OF pos assms(2)] assms(1)
  have tip: "transactionsInProgress s2 = 1" by simp
  have t: "transaction st tco (run st tco w) s = (Inr r, finally' ?c)"
    using assms(2,3) tip by (simp add: transaction_def)
  have tc: "transactionsInProgress ?c = 1"
    using commit_fields [of st tco "maxCommitRetries tco" s2] tip by simp
  show ?thesis
    using t commit_all_fail [OF assms(4)] finally_outermost [OF tc]
    by (simp add: finally_calls)
qed


theorem commit_failure_is_swallowed_witness:
  "fst (transaction test_store tco3 (run test_store tco3 (Set session_a (Return ())))
          (init_txn \<lparr>contents = [], failing = 3\<rparr>)) = Inr () \<and>
   length (filter is_SetCall (calls (snd (transaction test_store tco3
          (run test_store tco3 (Set session_a (Return ())))
          (init_txn \<lparr>contents = [], failing = 3\<rparr>))))) = 3 \<and>
   transactionsInProgress (snd (transaction test_store tco3
          (run test_store tco3 (Set session_a (Return ())))
          (init_txn \<lparr>contents = [], failing = 3\<rparr>))) = 0"
proof -
  let ?s = "init_txn \<lparr>contents = [], failing = 3\<rparr> :: (nat test_backing, nat) txn"
  let ?w = "Set session_a (Return ()) :: (nat, unit) work"
  let ?s1 = "?s\<lparr>transactionsInProgress := transactionsInProgress ?s + 1\<rparr>"
  let ?s2 = "snd (run test_store tco3 ?w ?s1)"
  have h1: "transactionsInProgress ?s = 0" by (simp add: init_txn_def)
  have h2: "run test_store tco3 ?w ?s1 = (Inr (), ?s2)"
    by (simp add: model_defs)
  have h3: "mutations ?s2 \<noteq> []"
    by (simp add: model_defs session_a_def)
  have h4: "\<forall>c\<in>set (new_calls ?s2 (commit test_store tco3 (maxCommitRetries tco3) ?s2)).
              \<not> is_success c"
    by (simp add: model_defs new_calls_def tco3_def eval_nat_numeral)
  have c: "calls ?s2 = []" by (simp add: model_defs)
  from commit_failure_is_swallowed [OF h1 h2 h3 h4] c show ?thesis
    by (simp add: tco3_def eval_nat_numeral)
qed


text \<open>
  Claim C1 as stated fails: with three tries and a store whose \<open>set\<close> throws three
  times, the transaction resolves with the workload's result; no \<open>CommitFailure\<close>
  reaches the caller.
\<close>

theorem commit_failure_counterexample: "transaction test_store tco3 (run test_store tco3 (Set session_a (Return ())))
     (init_txn \<lparr>contents = [], failing = 3\<rparr>) =
   (Inr (),
    \<lparr>backing = \<lparr>contents = [], failing = 0\<rparr>,
     calls = [SetCall session_a False, Delay 10, SetCall session_a False, Delay 10,
              SetCall session_a False, Delay 10],
     dbQueriesInTransaction = 0, transactionCache = [], mutations = [],
     transactionsInProgress = 0\<rparr>)"
  by (simp add: transaction_def set'_def isInTransaction_def init_txn_def tco3_def
      merge_data_def assign_def prop_or_empty_def finally'_def state_set_def test_store_def
      session_a_def eval_nat_numeral)




subsection \<open>A null written inside a transaction\<close>

lemma map_of_assign: "map_of (assign t s) = map_of t ++ map_of s"
  by (induction s) (auto simp: assign_def update_conv' fun_eq_iff map_add_def)

lemma prop_or_empty_update:
  "prop_or_empty (AList.update k d c) ty = (if k = ty then d else prop_or_empty c ty)"
  by (simp add: prop_or_empty_def update_conv')

lemma lookup2_update:
  "lookup2 (AList.update k d c) ty i = (if k = ty then map_of d i else lookup2 c ty i)"
  by (simp add: lookup2_def prop_or_empty_def update_conv')

lemma lookup2_merge_data_hit:
  "lookup2 data ty i = Some v \<Longrightarrow> lookup2 (merge_data data c) ty i = Some v"
proof (induction data)
  case Nil
  then show ?case by (simp add: lookup2_def prop_or_empty_def)
next
  case (Cons a data)
  obtain k d where a: "a = (k, d)" by (cases a)
  have md: "merge_data (a # data) c =
      AList.update k (assign (prop_or_empty (merge_data data c) k) d) (merge_data data c)"
    by (simp add: merge_data_def a)
  show ?case
  proof (cases "k = ty")
    case True
    with Cons.prems a have "map_of d i = Some v" by (simp add: lookup2_def prop_or_empty_def)
    then show ?thesis using True md by (simp add: lookup2_update map_of_assign)
  next
    case False
    with Cons.prems a have "lookup2 data ty i = Some v" by (simp add: lookup2_def prop_or_empty_def)
    from Cons.IH [OF this] False md show ?thesis by (simp add: lookup2_update)
  qed
qed

lemma lookup2_merge_data_miss:
  "\<not> touches data ty i \<Longrightarrow> lookup2 (merge_data data c) ty i = lookup2 c ty i"
proof (induction data)
  case Nil
  then show ?case by (simp add: merge_data_def)
next
  case (Cons a data)
  obtain k d where a: "a = (k, d)" by (cases a)
  have md: "merge_data (a # data) c =
      AList.update k (assign (prop_or_empty (merge_data data c) k) d) (merge_data data c)"
    by (simp add: merge_data_def a)
  have nt: "\<not> touches data ty i" using Cons.prems by (auto simp: touches_def)
  note ih = Cons.IH [OF nt]
  show ?case
  proof (cases "k = ty")
    case True
    with Cons.prems a have "i \<notin> fst ` set d" by (auto simp: touches_def)
    then have "map_of d i = None" by (simp add: map_of_eq_None_iff)
    moreover have "map_of (prop_or_empty (merge_data data c) ty) i = lookup2 c ty i"
      using ih by (simp add: lookup2_def)
    ultimately show ?thesis using True md
      by (simp add: lookup2_update map_of_assign map_add_def)
  next
    case False
    then show ?thesis using md ih by (simp add: lookup2_update)
  qed
qed

lemma map_of_collect_aux:
  "map_of (fold (\<lambda>j acc. case map_of c j of
                       Some (Val v) \<Rightarrow> AList.update j (Val v) acc
                     | _ \<Rightarrow> acc) ids acc) i =
     (if i \<in> set ids \<and> (\<exists>v. map_of c i = Some (Val v)) then map_of c i else map_of acc i)"
  by (induction ids arbitrary: acc) (auto simp: update_conv' split: option.splits stored.splits)

lemma map_of_collect:
  "map_of (collect c ids) i =
     (if i \<in> set ids \<and> (\<exists>v. map_of c i = Some (Val v)) then map_of c i else None)"
  by (auto simp: collect_def map_of_collect_aux)

lemma quiet_simps [simp]:
  "quiet ty i []"
  "quiet ty i (evs @ evs') = (quiet ty i evs \<and> quiet ty i evs')"
  "quiet ty i [GetCall t ids] = (\<not> (t = ty \<and> i \<in> set ids))"
  by (auto simp: quiet_def)

lemma fetch_tombstone:
  assumes honest: "answers_only_asked st"
    and tomb: "lookup2 (transactionCache s) ty i = Some Null"
    and notin: "t = ty \<longrightarrow> i \<notin> set ids"
    and f: "fetch st t ids s = (r, s')"
  shows "lookup2 (transactionCache s') ty i = Some Null"
proof -
  let ?s0 = "s\<lparr>dbQueriesInTransaction := dbQueriesInTransaction s + 1\<rparr>"
  obtain g s1 where g: "state_get st t ids ?s0 = (g, s1)" by (cases "state_get st t ids ?s0")
  from state_get_fields [OF g] have c1: "transactionCache s1 = transactionCache s" by simp
  show ?thesis
  proof (cases g)
    case (Inl e)
    with f g have "s' = s1" by (simp add: fetch_def)
    with c1 tomb show ?thesis by simp
  next
    case (Inr result)
    obtain b where "store_get st t ids (backing ?s0) = (Inr result, b)"
      using g Inr by (auto simp: state_get_def split: prod.splits)
    with honest have sub: "fst ` set result \<subseteq> set ids"
      unfolding answers_only_asked_def by blast
    have s': "transactionCache s' =
        AList.update t (assign (prop_or_empty (transactionCache s) t) result) (transactionCache s)"
      using f g Inr c1 by (auto simp: fetch_def)
    show ?thesis
    proof (cases "t = ty")
      case True
      with notin sub have "i \<notin> fst ` set result" by auto
      then have "map_of result i = None" by (simp add: map_of_eq_None_iff)
      then show ?thesis using s' True tomb
        by (simp add: prop_or_empty_update map_of_assign map_add_def lookup2_def)
    next
      case False
      then show ?thesis using s' tomb by (simp add: lookup2_update)
    qed
  qed
qed

lemma get_tombstone:
  assumes honest: "answers_only_asked st"
    and inT: "isInTransaction s"
    and tomb: "lookup2 (transactionCache s) ty i = Some Null"
    and g: "get st t ids s = (r, s')"
  shows "lookup2 (transactionCache s') ty i = Some Null \<and> mutations s' = mutations s \<and>
         transactionsInProgress s' = transactionsInProgress s \<and>
         (\<forall>res. r = Inr res \<longrightarrow> t = ty \<longrightarrow> map_of res i = None) \<and>
         (\<exists>evs. calls s' = calls s @ evs \<and> quiet ty i evs)"
proof -
  let ?req = "filter (\<lambda>j. map_of (prop_or_empty (transactionCache s) t) j = None) ids"
  have notin: "t = ty \<longrightarrow> i \<notin> set ?req" using tomb by (auto simp: lookup2_def)
  obtain f s1 where f: "(if ?req \<noteq> [] then fetch st t ?req s else (None, s)) = (f, s1)"
    by (cases "if ?req \<noteq> [] then fetch st t ?req s else (None, s)")
  have r: "(r, s') = (case f of Some e \<Rightarrow> (Inl e, s1)
      | None \<Rightarrow> (Inr (collect (prop_or_empty (transactionCache s1) t) ids), s1))"
    using g inT f by (simp add: get_def Let_def split: option.splits)
  then have s': "s' = s1" by (cases f) auto
  have t1: "lookup2 (transactionCache s1) ty i = Some Null"
    using f fetch_tombstone [OF honest tomb notin] tomb by (auto split: if_splits)
  have fld: "mutations s1 = mutations s \<and> transactionsInProgress s1 = transactionsInProgress s \<and>
      (\<exists>evs. calls s1 = calls s @ evs \<and> quiet ty i evs)"
  proof (cases "?req = []")
    case True
    with f show ?thesis by simp
  next
    case False
    with f have "fetch st t ?req s = (f, s1)" by simp
    from fetch_fields [OF this] notin show ?thesis by simp
  qed
  have "\<forall>res. r = Inr res \<longrightarrow> t = ty \<longrightarrow> map_of res i = None"
    using r t1 by (cases f) (auto simp: map_of_collect lookup2_def)
  with s' t1 fld show ?thesis by simp
qed

lemma run_tombstone:
  "answers_only_asked st \<Longrightarrow> 0 < transactionsInProgress s \<Longrightarrow>
   lookup2 (transactionCache s) ty i = Some Null \<Longrightarrow>
   lookup2 (mutations s) ty i = Some Null \<Longrightarrow>
   no_write ty i p \<Longrightarrow> run st tco p s = (r, s') \<Longrightarrow>
     transactionsInProgress s' = transactionsInProgress s \<and>
     lookup2 (transactionCache s') ty i = Some Null \<and>
     lookup2 (mutations s') ty i = Some Null \<and>
     (\<exists>evs. calls s' = calls s @ evs \<and> quiet ty i evs)"
proof (induction p arbitrary: s r s')
  case (Return x)
  then show ?case by simp
next
  case (Throw x)
  then show ?case by simp
next
  case (Get t ids k)
  obtain g s1 where g: "get st t ids s = (g, s1)" by (cases "get st t ids s")
  have inT: "isInTransaction s" using Get.prems(2) by (simp add: isInTransaction_def)
  note gt = get_tombstone [OF Get.prems(1) inT Get.prems(3) g]
  show ?case
  proof (cases g)
    case (Inl e)
    with Get.prems(6) g have "s' = s1" by simp
    with gt Get.prems(4) show ?thesis by simp
  next
    case (Inr d)
    with Get.prems(6) g have r: "run st tco (k d) s1 = (r, s')" by simp
    have pos: "0 < transactionsInProgress s1" using gt Get.prems(2) by simp
    have m: "lookup2 (mutations s1) ty i = Some Null" using gt Get.prems(4) by simp
    have c: "lookup2 (transactionCache s1) ty i = Some Null" using gt by simp
    have nw: "no_write ty i (k d)" using Get.prems(5) by simp
    from Get.IH [OF _ Get.prems(1) pos c m nw r] gt show ?thesis by fastforce
  qed
next
  case (Set d w)
  have inT: "isInTransaction s" using Set.prems(2) by (simp add: isInTransaction_def)
  obtain g s1 where g: "set' st d s = (g, s1)" by (cases "set' st d s")
  note f = set_in_txn_fields [OF g inT]
  have nt: "\<not> touches d ty i" and nw: "no_write ty i w" using Set.prems(5) by simp_all
  have c: "lookup2 (transactionCache s1) ty i = Some Null"
    using f Set.prems(3) lookup2_merge_data_miss [OF nt] by simp
  have m: "lookup2 (mutations s1) ty i = Some Null"
    using f Set.prems(4) lookup2_merge_data_miss [OF nt] by simp
  from Set.prems(6) g f have r: "run st tco w s1 = (r, s')" by simp
  have pos: "0 < transactionsInProgress s1" using f Set.prems(2) by simp
  from Set.IH [OF Set.prems(1) pos c m nw r] f show ?case by simp
next
  case (Transaction w k)
  let ?s1 = "s\<lparr>transactionsInProgress := transactionsInProgress s + 1\<rparr>"
  obtain q s2 where q: "run st tco w ?s1 = (q, s2)" by (cases "run st tco w ?s1")
  have pos1: "0 < transactionsInProgress ?s1" using Transaction.prems(2) by simp
  have c1: "lookup2 (transactionCache ?s1) ty i = Some Null" using Transaction.prems(3) by simp
  have m1: "lookup2 (mutations ?s1) ty i = Some Null" using Transaction.prems(4) by simp
  have nw1: "no_write ty i w" and nwk: "no_write ty i (k q)" using Transaction.prems(5) by simp_all
  note ih1 = Transaction.IH(1) [OF Transaction.prems(1) pos1 c1 m1 nw1 q]
  have f2: "transactionsInProgress s2 = transactionsInProgress s + 1" using ih1 by simp
  have ne1: "transactionsInProgress s2 \<noteq> 1" using f2 Transaction.prems(2) by simp
  have t: "transaction st tco (run st tco w) s = (q, finally' s2)"
    using q ne1 by (cases q) (simp_all add: transaction_def)
  have fin: "finally' s2 = s2\<lparr>transactionsInProgress := transactionsInProgress s2 - 1\<rparr>"
    by (rule finally_nested [OF ne1])
  from Transaction.prems(6) t have r: "run st tco (k q) (finally' s2) = (r, s')" by simp
  have pos3: "0 < transactionsInProgress (finally' s2)" using fin f2 Transaction.prems(2) by simp
  have c3: "lookup2 (transactionCache (finally' s2)) ty i = Some Null" using fin ih1 by simp
  have m3: "lookup2 (mutations (finally' s2)) ty i = Some Null" using fin ih1 by simp
  have cl: "calls (finally' s2) = calls s2" by (rule finally_calls)
  have tp: "transactionsInProgress (finally' s2) = transactionsInProgress s" using fin f2 by simp
  from Transaction.IH(2) [OF _ Transaction.prems(1) pos3 c3 m3 nwk r] ih1 cl tp
  show ?case by fastforce
qed

lemma commit_calls:
  "\<exists>evs. calls (commit st tco n s) = calls s @ evs \<and>
         (\<forall>c\<in>set evs. is_SetCall c \<longrightarrow> (\<exists>ok. c = SetCall (mutations s) ok)) \<and>
         (0 < n \<longrightarrow> (\<exists>c\<in>set evs. is_SetCall c))"
proof (induction n arbitrary: s)
  case 0
  then show ?case by simp
next
  case (Suc n)
  obtain r s1 where r: "state_set st (mutations s) s = (r, s1)"
    by (cases "state_set st (mutations s) s")
  note f = state_set_fields [OF r]
  show ?case
  proof (cases r)
    case (Inr u)
    with r f have "calls (commit st tco (Suc n) s) = calls s @ [SetCall (mutations s) True]"
      by simp
    then show ?thesis by auto
  next
    case (Inl e)
    let ?s2 = "s1\<lparr>calls := calls s1 @ [Delay (delayBetweenTriesMs tco)]\<rparr>"
    have eq: "commit st tco (Suc n) s = commit st tco n ?s2" using r Inl by simp
    from Suc.IH [of ?s2] obtain evs where
      evs: "calls (commit st tco n ?s2) = calls ?s2 @ evs"
        "\<forall>c\<in>set evs. is_SetCall c \<longrightarrow> (\<exists>ok. c = SetCall (mutations ?s2) ok)" by blast
    have "calls (commit st tco (Suc n) s) =
        calls s @ (SetCall (mutations s) False # Delay (delayBetweenTriesMs tco) # evs)"
      using eq evs(1) f Inl by simp
    moreover have "\<forall>c\<in>set (SetCall (mutations s) False # Delay (delayBetweenTriesMs tco) # evs).
        is_SetCall c \<longrightarrow> (\<exists>ok. c = SetCall (mutations s) ok)"
      using evs(2) f by auto
    ultimately show ?thesis by (intro exI [of _ "SetCall (mutations s) False # Delay (delayBetweenTriesMs tco) # evs"]) simp
  qed
qed

text \<open>
  Claim C10. In an outermost transaction whose workload first sets null under
  \<open>(ty, i)\<close> and then does anything but write \<open>(ty, i)\<close> again (over a store that
  answers for requested ids only): a \<open>get\<close> made at the end of that workload, whatever
  ids it asks for, omits \<open>i\<close> from its result and does not fetch \<open>i\<close> from the store;
  neither does any call made during the workload; and every \<open>set\<close> the commit makes on
  the store carries the null under \<open>(ty, i)\<close>, with at least one such \<open>set\<close> when
  \<open>maxCommitRetries\<close> is positive.
\<close>

theorem null_write_hidden_and_committed:
  assumes "answers_only_asked st"
    and "transactionsInProgress s = 0"
    and "lookup2 data ty i = Some Null"
    and "no_write ty i p"
    and "run st tco (Set data p) (s\<lparr>transactionsInProgress := transactionsInProgress s + 1\<rparr>)
           = (Inr r, s2)"
  shows "(\<forall>ids. (\<forall>res. fst (get st ty ids s2) = Inr res \<longrightarrow> map_of res i = None) \<and>
                (\<forall>c\<in>set (new_calls s2 (snd (get st ty ids s2))). \<not> asks_for ty i c)) \<and>
         (\<forall>c\<in>set (new_calls s s2). \<not> asks_for ty i c \<and> \<not> is_SetCall c) \<and>
         (\<forall>c\<in>set (new_calls s2 (snd (transaction st tco (run st tco (Set data p)) s))).
             is_SetCall c \<longrightarrow> writes_null ty i c) \<and>
         (0 < maxCommitRetries tco \<longrightarrow>
            (\<exists>c\<in>set (new_calls s2 (snd (transaction st tco (run st tco (Set data p)) s))).
               is_SetCall c))"
proof -
  let ?s1 = "s\<lparr>transactionsInProgress := transactionsInProgress s + 1\<rparr>"
  have inT: "isInTransaction ?s1" using assms(2) by (simp add: isInTransaction_def)
  obtain u s1' where u: "set' st data ?s1 = (u, s1')" by (cases "set' st data ?s1")
  note f = set_in_txn_fields [OF u inT]
  have rp: "run st tco p s1' = (Inr r, s2)" using assms(5) u f by simp
  have pos: "0 < transactionsInProgress s1'" using f assms(2) by simp
  have c: "lookup2 (transactionCache s1') ty i = Some Null"
    using f lookup2_merge_data_hit [OF assms(3)] by simp
  have m: "lookup2 (mutations s1') ty i = Some Null"
    using f lookup2_merge_data_hit [OF assms(3)] by simp
  from run_tombstone [OF assms(1) pos c m assms(4) rp] f assms(2)
  obtain evs where tip2: "transactionsInProgress s2 = 1"
    and c2: "lookup2 (transactionCache s2) ty i = Some Null"
    and m2: "lookup2 (mutations s2) ty i = Some Null"
    and calls2: "calls s2 = calls s @ evs" and q: "quiet ty i evs" by auto
  have inT2: "isInTransaction s2" using tip2 by (simp add: isInTransaction_def)
  have a: "\<forall>ids. (\<forall>res. fst (get st ty ids s2) = Inr res \<longrightarrow> map_of res i = None) \<and>
                (\<forall>c\<in>set (new_calls s2 (snd (get st ty ids s2))). \<not> asks_for ty i c)"
  proof
    fix ids
    obtain g s3 where g: "get st ty ids s2 = (g, s3)" by (cases "get st ty ids s2")
    from get_tombstone [OF assms(1) inT2 c2 g] g
    show "(\<forall>res. fst (get st ty ids s2) = Inr res \<longrightarrow> map_of res i = None) \<and>
          (\<forall>c\<in>set (new_calls s2 (snd (get st ty ids s2))). \<not> asks_for ty i c)"
      by (auto simp: new_calls_def quiet_def)
  qed
  have b: "\<forall>c\<in>set (new_calls s s2). \<not> asks_for ty i c \<and> \<not> is_SetCall c"
    using calls2 q by (auto simp: new_calls_def quiet_def)
  have ne: "mutations s2 \<noteq> []" using m2 by (auto simp: lookup2_def prop_or_empty_def)
  let ?c = "commit st tco (maxCommitRetries tco) s2"
  have t: "transaction st tco (run st tco (Set data p)) s = (Inr r, finally' ?c)"
    using assms(5) ne tip2 by (simp add: transaction_def)
  from commit_calls [of st tco "maxCommitRetries tco" s2] obtain evs' where
    e1: "calls ?c = calls s2 @ evs'"
    and e2: "\<forall>c\<in>set evs'. is_SetCall c \<longrightarrow> (\<exists>ok. c = SetCall (mutations s2) ok)"
    and e3: "0 < maxCommitRetries tco \<longrightarrow> (\<exists>c\<in>set evs'. is_SetCall c)" by auto
  have nc: "new_calls s2 (snd (transaction st tco (run st tco (Set data p)) s)) = evs'"
    using t e1 by (simp add: new_calls_def finally_calls)
  have "\<forall>c\<in>set evs'. is_SetCall c \<longrightarrow> writes_null ty i c"
    using e2 m2 by auto
  with a b nc e3 show ?thesis by simp
qed

lemma test_store_answers_only_asked: "answers_only_asked test_store"
proof -
  have "fst ` set (collect c ids) \<subseteq> set ids" for c :: "'a dict" and ids
  proof
    fix k assume "k \<in> fst ` set (collect c ids)"
    then have "map_of (collect c ids) k \<noteq> None" by (simp add: map_of_eq_None_iff)
    then show "k \<in> set ids" by (simp add: map_of_collect split: if_splits)
  qed
  then show ?thesis by (auto simp: answers_only_asked_def test_store_def)
qed

theorem null_write_hidden_and_committed_witness:
  "lookup2 delete_a ''session'' ''a'' = Some Null \<and>
   fst (run test_store tco3 (Set delete_a (Get ''session'' [''a'', ''b''] Return))
          (stored_a\<lparr>transactionsInProgress := 1\<rparr>)) = Inr [] \<and>
   (\<exists>c\<in>set (calls (snd (transaction test_store tco3
          (run test_store tco3 (Set delete_a (Get ''session'' [''a'', ''b''] Return))) stored_a))).
      writes_null ''session'' ''a'' c)"
proof -
  let ?w = "Set delete_a (Get ''session'' [''a'', ''b''] Return) :: (nat, nat dict) work"
  let ?s1 = "stored_a\<lparr>transactionsInProgress := transactionsInProgress stored_a + 1\<rparr>"
  let ?s2 = "snd (run test_store tco3 ?w ?s1)"
  let ?s' = "snd (transaction test_store tco3 (run test_store tco3 ?w) stored_a)"
  have h2: "transactionsInProgress stored_a = 0" by (simp add: stored_a_def init_txn_def)
  have h3: "lookup2 delete_a ''session'' ''a'' = Some Null"
    by (simp add: lookup2_def prop_or_empty_def delete_a_def)
  have h4: "no_write ''session'' ''a'' (Get ''session'' [''a'', ''b''] Return :: (nat, nat dict) work)"
    by simp
  have h5: "run test_store tco3 ?w ?s1 = (Inr [], ?s2)"
    by (simp add: model_defs Let_def stored_a_def delete_a_def)
  note th = null_write_hidden_and_committed [OF test_store_answers_only_asked h2 h3 h4 h5]
  have pos: "0 < maxCommitRetries tco3" by (simp add: tco3_def)
  from th pos obtain c where c: "c \<in> set (new_calls ?s2 ?s')" "is_SetCall c" by blast
  with th have "writes_null ''session'' ''a'' c" by blast
  moreover have "c \<in> set (calls ?s')" using c(1) by (auto simp: new_calls_def dest: in_set_dropD)
  ultimately have e: "\<exists>c\<in>set (calls ?s'). writes_null ''session'' ''a'' c" by blast
  have r: "fst (run test_store tco3 ?w (stored_a\<lparr>transactionsInProgress := 1\<rparr>)) = Inr []"
    by (simp add: model_defs Let_def stored_a_def delete_a_def)
  from h3 r e show ?thesis by blast
qed

section \<open>Properties of the pre-key counters\<close>

text \<open>
  Claim C7. When \<open>firstUnuploadedPreKeyId \<le> nextPreKeyId\<close> holds of the credentials,
  it holds of the update \<open>getNextPreKeys\<close> returns, for every count; neither counter
  decreases; and every id \<open>generateOrGetPreKeys\<close> newly generates is at least
  \<open>creds.nextPreKeyId\<close>.
\<close>

theorem next_prekeys_invariant:
  assumes "firstUnuploadedPreKeyId creds \<le> nextPreKeyId creds"
  shows "(\<forall>(i, k)\<in>set (newPreKeys (generateOrGetPreKeys generateKeyPair creds count)).
            nextPreKeyId creds \<le> i) \<and>
         (\<forall>update preKeys s'.
            getNextPreKeys generateKeyPair keys creds count s = (Inr (update, preKeys), s') \<longrightarrow>
              firstUnuploadedPreKeyId update \<le> nextPreKeyId update \<and>
              nextPreKeyId creds \<le> nextPreKeyId update \<and>
              firstUnuploadedPreKeyId creds \<le> firstUnuploadedPreKeyId update)"
  using assms
  by (auto simp: generateOrGetPreKeys_def getNextPreKeys_def Let_def
      split: prod.splits sum.splits)


lemma toString_10_14:
  "toString 10 = ''10''" "toString 11 = ''11''" "toString 12 = ''12''"
  "toString 13 = ''13''" "toString 14 = ''14''"
  by (simp_all add: toString_def digits.simps)

text \<open>
  Claim C6. With \<open>nextPreKeyId = firstUnuploadedPreKeyId = 10\<close>,
  \<open>getNextPreKeys(state, 5)\<close> generates the ids 10 to 14, returns both counters as 15,
  and calls \<open>set\<close> on the key store exactly once, with the five new keys under
  \<open>pre-key\<close>.
\<close>

theorem next_prekeys_from_ten:
  assumes "nextPreKeyId creds = 10" and "firstUnuploadedPreKeyId creds = 10"
  shows "map fst (newPreKeys (generateOrGetPreKeys generateKeyPair creds 5)) = [10, 11, 12, 13, 14] \<and>
         (\<forall>update preKeys s'.
            getNextPreKeys generateKeyPair keys creds 5 s = (Inr (update, preKeys), s') \<longrightarrow>
              nextPreKeyId update = 15 \<and> firstUnuploadedPreKeyId update = 15) \<and>
         (\<exists>ok. filter is_SetCall (new_calls s (snd (getNextPreKeys generateKeyPair keys creds 5 s))) =
            [SetCall [(''pre-key'',
                [(''10'', Val (generateKeyPair 0)), (''11'', Val (generateKeyPair 1)),
                 (''12'', Val (generateKeyPair 2)), (''13'', Val (generateKeyPair 3)),
                 (''14'', Val (generateKeyPair 4))])] ok])"
proof -
  let ?g = "generateOrGetPreKeys generateKeyPair creds 5"
  have np: "newPreKeys ?g = [(10, generateKeyPair 0), (11, generateKeyPair 1),
      (12, generateKeyPair 2), (13, generateKeyPair 3), (14, generateKeyPair 4)]"
    using assms by (simp add: generateOrGetPreKeys_def Let_def eval_nat_numeral)
  have lp: "lastPreKeyId ?g = 14"
    using assms by (simp add: generateOrGetPreKeys_def Let_def)
  let ?data = "[(''pre-key'',
                [(''10'', Val (generateKeyPair 0)), (''11'', Val (generateKeyPair 1)),
                 (''12'', Val (generateKeyPair 2)), (''13'', Val (generateKeyPair 3)),
                 (''14'', Val (generateKeyPair 4))])]"
  obtain r s1 where r: "state_set keys ?data s = (r, s1)" by (cases "state_set keys ?data s")
  have c1: "calls s1 = calls s @ [SetCall ?data (\<not> isl r)]"
    using r by (auto simp: state_set_def split: prod.splits)
  have a: "map fst (newPreKeys ?g) = [10, 11, 12, 13, 14]" using np by simp
  have b: "\<forall>update preKeys s'.
            getNextPreKeys generateKeyPair keys creds 5 s = (Inr (update, preKeys), s') \<longrightarrow>
              nextPreKeyId update = 15 \<and> firstUnuploadedPreKeyId update = 15"
    using assms lp by (auto simp: getNextPreKeys_def Let_def split: prod.splits sum.splits)
  have c: "filter is_SetCall (new_calls s (snd (getNextPreKeys generateKeyPair keys creds 5 s))) =
      [SetCall ?data (\<not> isl r)]"
  proof (cases r)
    case (Inl e)
    then show ?thesis using r c1 np
      by (simp add: getNextPreKeys_def Let_def toString_10_14 new_calls_def)
  next
    case (Inr u)
    obtain q s2 where q: "getPreKeys keys (fst (preKeysRange ?g))
        (fst (preKeysRange ?g) + snd (preKeysRange ?g)) s1 = (q, s2)"
      by (cases "getPreKeys keys (fst (preKeysRange ?g))
        (fst (preKeysRange ?g) + snd (preKeysRange ?g)) s1")
    then obtain ids where c2: "calls s2 = calls s1 @ [GetCall ''pre-key'' ids]"
      by (auto simp: getPreKeys_def state_get_def split: prod.splits)
    have "snd (getNextPreKeys generateKeyPair keys creds 5 s) = s2"
      using r Inr q np by (cases q) (simp_all add: getNextPreKeys_def Let_def toString_10_14)
    then show ?thesis using c1 c2 by (simp add: new_calls_def)
  qed
  from a b c show ?thesis by blast
qed

theorem next_prekeys_from_ten_witness:
  "getNextPreKeys (\<lambda>n. n) test_store \<lparr>nextPreKeyId = 10, firstUnuploadedPreKeyId = 10\<rparr> 5 no_keys =
     (Inr (\<lparr>nextPreKeyId = 15, firstUnuploadedPreKeyId = 15\<rparr>,
           [(''10'', Val 0), (''11'', Val 1), (''12'', Val 2), (''13'', Val 3), (''14'', Val 4)]),
      snd (getNextPreKeys (\<lambda>n. n) test_store
             \<lparr>nextPreKeyId = 10, firstUnuploadedPreKeyId = 10\<rparr> 5 no_keys)) \<and>
   length (filter is_SetCall (calls (snd (getNextPreKeys (\<lambda>n. n) test_store
             \<lparr>nextPreKeyId = 10, firstUnuploadedPreKeyId = 10\<rparr> 5 no_keys)))) = 1"
proof -
  let ?creds = "\<lparr>nextPreKeyId = 10, firstUnuploadedPreKeyId = 10\<rparr>"
  let ?r = "getNextPreKeys (\<lambda>n. n) test_store ?creds 5 no_keys"
  have h1: "nextPreKeyId ?creds = 10" and h2: "firstUnuploadedPreKeyId ?creds = 10" by simp_all
  note th = next_prekeys_from_ten [OF h1 h2, of "\<lambda>n. n" test_store no_keys]
  have pk: "\<exists>preKeys. fst ?r = Inr (\<lparr>nextPreKeyId = 15, firstUnuploadedPreKeyId = 15\<rparr>, preKeys) \<and>
      preKeys = [(''10'', Val 0), (''11'', Val 1), (''12'', Val 2), (''13'', Val 3), (''14'', Val 4)]"
    by (simp add: getNextPreKeys_def getPreKeys_def generateOrGetPreKeys_def Let_def
        model_defs no_keys_def toString_10_14 eval_nat_numeral)
  have "calls no_keys = []" by (simp add: no_keys_def)
  then have "new_calls no_keys (snd ?r) = calls (snd ?r)" by (simp add: new_calls_def)
  with th have "length (filter is_SetCall (calls (snd ?r))) = 1" by auto
  with pk show ?thesis by (metis prod.collapse)
qed

theorem next_prekeys_invariant_witness:
  "map fst (newPreKeys (generateOrGetPreKeys (\<lambda>n. n)
        \<lparr>nextPreKeyId = 12, firstUnuploadedPreKeyId = 10\<rparr> 5)) = [12, 13, 14] \<and>
   (\<exists>update preKeys.
      fst (getNextPreKeys (\<lambda>n. n) test_store
             \<lparr>nextPreKeyId = 12, firstUnuploadedPreKeyId = 10\<rparr> 5 no_keys) = Inr (update, preKeys) \<and>
      firstUnuploadedPreKeyId update \<le> nextPreKeyId update \<and>
      12 \<le> nextPreKeyId update \<and> 10 \<le> firstUnuploadedPreKeyId update)"
proof -
  let ?creds = "\<lparr>nextPreKeyId = 12, firstUnuploadedPreKeyId = 10\<rparr>"
  let ?r = "getNextPreKeys (\<lambda>n. n) test_store ?creds 5 no_keys"
  have h: "firstUnuploadedPreKeyId ?creds \<le> nextPreKeyId ?creds" by simp
  note th = next_prekeys_invariant [OF h, of "\<lambda>n. n" 5 test_store no_keys]
  have n: "map fst (newPreKeys (generateOrGetPreKeys (\<lambda>n. n) ?creds 5)) = [12, 13, 14]"
    by (simp add: generateOrGetPreKeys_def Let_def)
  have "\<exists>update preKeys. ?r = (Inr (update, preKeys), snd ?r)"
    by (simp add: getNextPreKeys_def getPreKeys_def generateOrGetPreKeys_def Let_def
        model_defs no_keys_def toString_10_14 eval_nat_numeral)
  then obtain update preKeys where r: "?r = (Inr (update, preKeys), snd ?r)" by blast
  with th have "firstUnuploadedPreKeyId update \<le> nextPreKeyId update \<and>
      nextPreKeyId ?creds \<le> nextPreKeyId update \<and>
      firstUnuploadedPreKeyId ?creds \<le> firstUnuploadedPreKeyId update" by blast
  moreover have "fst ?r = Inr (update, preKeys)" using r by (metis fst_conv)
  ultimately show ?thesis using th n by auto
qed


section \<open>Properties of the device lists\<close>

lemma strict_eq_zero: "strict_eq d (Num 0) \<longleftrightarrow> d = Num 0"
  by (cases d) auto

lemma processDevice_retained:
  assumes "\<forall>jd\<in>set extracted. P jd"
    and "\<And>d. tag' = ''device'' \<Longrightarrow> d = unary_plus env (map_of attrs' ''id'') \<Longrightarrow> d \<noteq> Num 0 \<Longrightarrow>
           \<not> (myUser = user' \<and> (case myDevice of None \<Rightarrow> False | Some m \<Rightarrow> strict_eq m d)) \<Longrightarrow>
           truthy (map_of attrs' ''key-index'') \<Longrightarrow> P \<lparr>user = user', device = Some d\<rparr>"
  shows "\<forall>jd\<in>set (processDevice env tag' attrs' user' myUser myDevice True extracted). P jd"
  using assms by (auto simp: processDevice_def Let_def strict_eq_zero)

lemma fold_processDevice_retained:
  assumes "\<forall>jd\<in>set extracted. P jd"
    and "\<And>c d. c \<in> set cs \<Longrightarrow> tag c = ''device'' \<Longrightarrow> d = unary_plus env (map_of (attrs c) ''id'') \<Longrightarrow>
           d \<noteq> Num 0 \<Longrightarrow>
           \<not> (myUser = user' \<and> (case myDevice of None \<Rightarrow> False | Some m \<Rightarrow> strict_eq m d)) \<Longrightarrow>
           truthy (map_of (attrs c) ''key-index'') \<Longrightarrow> P \<lparr>user = user', device = Some d\<rparr>"
  shows "\<forall>jd\<in>set (fold (\<lambda>c. processDevice env (tag c) (attrs c) user' myUser myDevice True)
                       cs extracted). P jd"
  using assms
proof (induction cs arbitrary: extracted)
  case Nil
  then show ?case by simp
next
  case (Cons c cs)
  have "\<forall>jd\<in>set (processDevice env (tag c) (attrs c) user' myUser myDevice True extracted). P jd"
    by (rule processDevice_retained [OF Cons.prems(1)]) (rule Cons.prems(2), simp_all)
  from Cons.IH [OF this] Cons.prems(2) show ?case by simp
qed

lemma processItem_retained:
  assumes "\<forall>jd\<in>set extracted. retained env myUser myDevice items jd"
    and "item \<in> set items"
    and "processItem env item myUser myDevice True extracted = Inr out"
  shows "\<forall>jd\<in>set out. retained env myUser myDevice items jd"
proof (cases "jidDecode env (map_of (attrs item) ''jid'')")
  case None
  with assms(3) show ?thesis by (simp add: processItem_def)
next
  case (Some j)
  let ?dl = "getBinaryNodeChild env (getBinaryNodeChild env (Some item) ''devices'') ''device-list''"
  show ?thesis
  proof (cases "\<exists>t a cs. ?dl = Some (BinaryNode t a (Nodes cs))")
    case False
    then have "out = extracted" using assms(3) Some
      by (auto simp: processItem_def Let_def split: option.splits BinaryNode.splits content.splits)
    with assms(1) show ?thesis by simp
  next
    case True
    then obtain t a cs where dl: "?dl = Some (BinaryNode t a (Nodes cs))" by blast
    then have cs: "device_list env item = cs" by (simp add: device_list_def)
    have out: "out = fold (\<lambda>c. processDevice env (tag c) (attrs c) (user j) myUser myDevice True)
        cs extracted"
      using assms(3) Some dl by (simp add: processItem_def Let_def)
    show ?thesis unfolding out
    proof (rule fold_processDevice_retained [OF assms(1)])
      fix c d
      assume "c \<in> set cs" "tag c = ''device''" "d = unary_plus env (map_of (attrs c) ''id'')"
        "d \<noteq> Num 0"
        "\<not> (myUser = user j \<and> (case myDevice of None \<Rightarrow> False | Some m \<Rightarrow> strict_eq m d))"
        "truthy (map_of (attrs c) ''key-index'')"
      then show "retained env myUser myDevice items \<lparr>user = user j, device = Some d\<rparr>"
        unfolding retained_def using assms(2) Some cs
        by (intro bexI [of _ item] bexI [of _ c] exI [of _ j]) (auto split: option.splits)
    qed
  qed
qed

lemma for_each_invariant:
  assumes "I acc"
    and "\<And>x a a'. x \<in> set xs \<Longrightarrow> I a \<Longrightarrow> f x a = Inr a' \<Longrightarrow> I a'"
    and "for_each f xs acc = Inr out"
  shows "I out"
  using assms
proof (induction xs arbitrary: acc)
  case Nil
  then show ?case by simp
next
  case (Cons x xs)
  from Cons.prems(3) obtain a' where a': "f x acc = Inr a'" and r: "for_each f xs a' = Inr out"
    by (auto split: sum.splits)
  have "I a'" using Cons.prems(2) [OF _ Cons.prems(1) a'] by simp
  show ?case
  proof (rule Cons.IH [OF \<open>I a'\<close> _ r])
    fix y a b assume "y \<in> set xs" "I a" "f y a = Inr b"
    then show "I b" using Cons.prems(2) [of y a b] by simp
  qed
qed

text \<open>
  Claim C8. Every pair \<open>extractDeviceJids(resp, myJid, true)\<close> returns is retained:
  it is not the caller's own (user, device) pair, its device is not 0, and it comes
  from a \<open>device\<close> descriptor that carries a non-empty \<open>key-index\<close> attribute.
\<close>

theorem extractDeviceJids_excluding_zero:
  assumes "extractDeviceJids env result myJid True = Inr extracted"
    and "jidDecode env (Some myJid) = Some me"
  shows "\<forall>jd\<in>set extracted. retained env (user me) (device me) (user_items env result) jd"
proof (cases "content result")
  case Absent
  with assms show ?thesis by (simp add: extractDeviceJids_def)
next
  case (Bytes b)
  with assms show ?thesis by (simp add: extractDeviceJids_def)
next
  case (Nodes ns)
  let ?items = "user_items env result"
  let ?I = "\<lambda>ex. \<forall>jd\<in>set ex. retained env (user me) (device me) ?items jd"
  let ?body = "\<lambda>node extracted.
                  case getBinaryNodeChild env (Some node) ''list'' of
                    Some (BinaryNode t a (Nodes items)) \<Rightarrow>
                      for_each (\<lambda>item. processItem env item (user me) (device me) True) items extracted
                  | _ \<Rightarrow> Inr extracted"
  have run: "for_each ?body ns [] = Inr extracted"
    using assms Nodes by (simp add: extractDeviceJids_def)
  show ?thesis
  proof (rule for_each_invariant [where I = ?I and f = ?body, OF _ _ run])
    show "?I []" by simp
  next
    fix node a a'
    assume node: "node \<in> set ns" and Ia: "?I a" and step: "?body node a = Inr a'"
    show "?I a'"
    proof (cases "\<exists>t at items. getBinaryNodeChild env (Some node) ''list'' = Some (BinaryNode t at (Nodes items))")
      case False
      then have "a' = a" using step
        by (auto split: option.splits BinaryNode.splits content.splits)
      with Ia show ?thesis by simp
    next
      case True
      then obtain t at items where
        l: "getBinaryNodeChild env (Some node) ''list'' = Some (BinaryNode t at (Nodes items))"
        by blast
      have sub: "set items \<subseteq> set ?items"
        using node l Nodes by (force simp: user_items_def)
      have inner: "for_each (\<lambda>item. processItem env item (user me) (device me) True) items a = Inr a'"
        using step l by simp
      show ?thesis
        by (rule for_each_invariant [where I = ?I, OF Ia _ inner])
           (rule processItem_retained, assumption, use sub in blast, assumption)
    qed
  qed
qed

lemmas test_env_defs = test_env_def test_jidDecode_def test_getBinaryNodeChild_def test_toNumber_def
  device_node_def user_node_def usync_result_def

lemmas extract_defs = extractDeviceJids_def processItem_def processDevice_def unary_plus_def
  truthy_def

lemma lookup_loop:
  "\<forall>jid\<in>set js. jidDecode env (Some jid) \<noteq> None \<Longrightarrow>
   for_each (lookup_device env useCache cache) js (dr, us) =
     Inr (dr @ concat (map (cached_devices env cache) (filter (is_served env useCache cache) js)),
          us @ map (user_query env) (filter (\<lambda>jid. \<not> is_served env useCache cache jid) js))"
proof (induction js arbitrary: dr us)
  case Nil
  then show ?case by simp
next
  case (Cons jid js)
  then obtain j where j: "jidDecode env (Some jid) = Some j" by auto
  have rest: "\<forall>jid\<in>set js. jidDecode env (Some jid) \<noteq> None" using Cons.prems by simp
  show ?case
  proof (cases "is_served env useCache cache jid")
    case True
    then obtain ds where ds: "map_of cache (user j) = Some ds" and uc: useCache
      using j by (auto simp: is_served_def)
    have "lookup_device env useCache cache jid (dr, us) = Inr (dr @ ds, us)"
      using j ds uc by (simp add: lookup_device_def)
    moreover have "cached_devices env cache jid = ds" using j ds by (simp add: cached_devices_def)
    ultimately show ?thesis using True Cons.IH [OF rest, of "dr @ ds" us] by simp
  next
    case False
    then have "lookup_device env useCache cache jid (dr, us) = Inr (dr, us @ [user_query env jid])"
      using j by (auto simp: is_served_def lookup_device_def user_query_def split: option.splits bool.splits)
    then show ?thesis using False Cons.IH [OF rest, of dr "us @ [user_query env jid]"] by simp
  qed
qed

text \<open>
  Claim C5, as amended. \<open>getUSyncDevices\<close> removes repeated JID strings from its input
  (not repeated users). The JIDs whose user is in the cache, when \<open>useCache\<close> is set, are
  served from it. If none is left, no query is sent and the cached devices are returned;
  otherwise exactly one \<open>iq/usync\<close> is sent, listing the normalised JID of each
  remaining input JID, and a successful call returns the cached devices followed by the
  devices extracted from the response.
\<close>

theorem getUSyncDevices_by_exact_jid:
  assumes "\<forall>jid\<in>set jids. jidDecode env (Some jid) \<noteq> None"
  shows "(filter (\<lambda>jid. \<not> is_served env useCache (userDevicesCache s) jid) (uniq jids) = [] \<longrightarrow>
            getUSyncDevices env jids useCache ignoreZeroDevices s =
              (Inr (concat (map (cached_devices env (userDevicesCache s))
                      (filter (is_served env useCache (userDevicesCache s)) (uniq jids)))), s)) \<and>
         (filter (\<lambda>jid. \<not> is_served env useCache (userDevicesCache s) jid) (uniq jids) \<noteq> [] \<longrightarrow>
            queries (snd (getUSyncDevices env jids useCache ignoreZeroDevices s)) =
              queries s @
              [usync_iq env (messageTag env (epoch s))
                 (map (user_query env)
                    (filter (\<lambda>jid. \<not> is_served env useCache (userDevicesCache s) jid) (uniq jids)))] \<and>
            (\<forall>devices. fst (getUSyncDevices env jids useCache ignoreZeroDevices s) = Inr devices \<longrightarrow>
               (\<exists>result meId extracted.
                  query env (usync_iq env (messageTag env (epoch s))
                    (map (user_query env)
                      (filter (\<lambda>jid. \<not> is_served env useCache (userDevicesCache s) jid) (uniq jids))))
                    = Inr result \<and>
                  creds_me_id env = Some meId \<and>
                  extractDeviceJids env result meId ignoreZeroDevices = Inr extracted \<and>
                  devices =
                    concat (map (cached_devices env (userDevicesCache s))
                      (filter (is_served env useCache (userDevicesCache s)) (uniq jids))) @ extracted)))"
proof -
  have "\<forall>jid\<in>set (uniq jids). jidDecode env (Some jid) \<noteq> None"
    using assms by (simp add: uniq_def)
  from lookup_loop [OF this, of useCache "userDevicesCache s" "[]" "[]"]
  show ?thesis
    by (auto simp: getUSyncDevices_def Let_def split: sum.splits option.splits)
qed

lemmas test_socket_defs = test_socket_def test_jidDecode_def test_getBinaryNodeChild_def
  test_toNumber_def test_jidEncode_def test_jidNormalizedUser_def test_query_def queried_jids_def
  device_node_def user_node_def usync_result_def init_sock_def

lemmas usync_defs = getUSyncDevices_def lookup_device_def uniq_def usync_iq_def group_by_user_def
  assign_def

text \<open>
  Claim C5 as stated fails: two JIDs of the same user (two devices of \<open>bob\<close>) are both
  kept, and the one query lists that user twice.
\<close>

theorem getUSyncDevices_same_user_counterexample:
  "map queried_jids (queries (snd (getUSyncDevices test_socket
       [''bob:1@s.whatsapp.net'', ''bob:2@s.whatsapp.net''] True False no_cache))) =
     [[''bob@s.whatsapp.net'', ''bob@s.whatsapp.net'']]"
  by (simp add: usync_defs extract_defs test_socket_defs no_cache_def Let_def toString_def digits.simps)

theorem getUSyncDevices_by_exact_jid_witness:
  "fst (getUSyncDevices test_socket
          [''14155550000@s.whatsapp.net'', ''14155550001@s.whatsapp.net''] True False one_cached) =
     Inr [\<lparr>user = ''14155550000'', device = Some (Num 0)\<rparr>,
          \<lparr>user = ''14155550001'', device = Some (Num 0)\<rparr>,
          \<lparr>user = ''14155550001'', device = Some (Num 1)\<rparr>] \<and>
   map queried_jids (queries (snd (getUSyncDevices test_socket
          [''14155550000@s.whatsapp.net'', ''14155550001@s.whatsapp.net''] True False one_cached))) =
     [[''14155550001@s.whatsapp.net'']]"
proof -
  let ?jids = "[''14155550000@s.whatsapp.net'', ''14155550001@s.whatsapp.net'']"
  let ?toFetch = "filter (\<lambda>jid. \<not> is_served test_socket True (userDevicesCache one_cached) jid)
      (uniq ?jids)"
  have h: "\<forall>jid\<in>set ?jids. jidDecode test_socket (Some jid) \<noteq> None"
    by (simp add: test_socket_defs)
  note th = getUSyncDevices_by_exact_jid [OF h, of True one_cached False]
  have tf: "?toFetch = [''14155550001@s.whatsapp.net'']"
    by (simp add: is_served_def uniq_def test_socket_defs one_cached_def)
  then have ne: "?toFetch \<noteq> []" by simp
  from th ne have "queries (snd (getUSyncDevices test_socket ?jids True False one_cached)) =
      queries one_cached @
        [usync_iq test_socket (messageTag test_socket (epoch one_cached))
           (map (user_query test_socket) ?toFetch)]" by blast
  then have q: "map queried_jids (queries (snd (getUSyncDevices test_socket ?jids True False
      one_cached))) = [[''14155550001@s.whatsapp.net'']]"
    unfolding tf
    by (simp add: usync_iq_def user_query_def test_socket_defs one_cached_def)
  have r: "fst (getUSyncDevices test_socket ?jids True False one_cached) =
     Inr [\<lparr>user = ''14155550000'', device = Some (Num 0)\<rparr>,
          \<lparr>user = ''14155550001'', device = Some (Num 0)\<rparr>,
          \<lparr>user = ''14155550001'', device = Some (Num 1)\<rparr>]"
    by (simp add: usync_defs extract_defs test_socket_defs one_cached_def Let_def
        toString_def digits.simps)
  from q r show ?thesis by simp
qed

theorem extractDeviceJids_excluding_zero_witness:
  "extractDeviceJids test_env bob_and_me ''me:3@s.whatsapp.net'' True =
     Inr [\<lparr>user = ''bob'', device = Some (Num 1)\<rparr>, \<lparr>user = ''me'', device = Some (Num 4)\<rparr>] \<and>
   retained test_env ''me'' (Some (Num 3)) (user_items test_env bob_and_me)
     \<lparr>user = ''bob'', device = Some (Num 1)\<rparr> \<and>
   retained test_env ''me'' (Some (Num 3)) (user_items test_env bob_and_me)
     \<lparr>user = ''me'', device = Some (Num 4)\<rparr>"
proof -
  have h1: "extractDeviceJids test_env bob_and_me ''me:3@s.whatsapp.net'' True =
     Inr [\<lparr>user = ''bob'', device = Some (Num 1)\<rparr>, \<lparr>user = ''me'', device = Some (Num 4)\<rparr>]"
    by (simp add: extract_defs test_env_defs bob_and_me_def Let_def)
  have h2: "jidDecode test_env (Some ''me:3@s.whatsapp.net'') =
      Some \<lparr>user = ''me'', device = Some (Num 3), server = ''s.whatsapp.net''\<rparr>"
    by (simp add: test_env_defs)
  from extractDeviceJids_excluding_zero [OF h1 h2] h1 show ?thesis by simp
qed


section \<open>Properties of the job queue\<close>

lemma gcLimit_pos: "1 < gcLimit" by (simp add: gcLimit_def)

lemma enqueue_present:
  "buckets s b = Some (Bucket q ex) \<Longrightarrow>
     buckets (fold (enqueue b) js s) b = Some (Bucket (q @ js) ex) \<and>
     executors (fold (enqueue b) js s) = executors s \<and>
     started (fold (enqueue b) js s) = started s \<and>
     settled (fold (enqueue b) js s) = settled s \<and>
     spliced (fold (enqueue b) js s) = spliced s"
proof (induction js arbitrary: s q)
  case Nil
  then show ?case by simp
next
  case (Cons j js)
  let ?s1 = "s\<lparr>buckets := (buckets s)(b \<mapsto> Bucket (q @ [j]) ex)\<rparr>"
  have e: "enqueue b j s = ?s1" using Cons.prems by (simp add: enqueue_def)
  have "buckets ?s1 b = Some (Bucket (q @ [j]) ex)" by simp
  from Cons.IH [OF this] show ?case unfolding fold_simps e by simp
qed

lemma enqueue_burst:
  "buckets (fold (enqueue b) (j # js) no_buckets) b = Some (Bucket (j # js) (Some (1, 0, j))) \<and>
   executors (fold (enqueue b) (j # js) no_buckets) = [b] \<and>
   started (fold (enqueue b) (j # js) no_buckets) = [(b, j)] \<and>
   settled (fold (enqueue b) (j # js) no_buckets) = [] \<and>
   spliced (fold (enqueue b) (j # js) no_buckets) = []"
proof -
  have w: "while_body [j] 0 [] = (Suspended [j] 1 0 j, [])"
    using gcLimit_pos by (simp add: while_body.simps for_loop.simps)
  let ?s1 = "\<lparr>buckets = [b \<mapsto> Bucket [j] (Some (1, 0, j))], executors = [b], started = [(b, j)],
       settled = [], spliced = []\<rparr>"
  have e: "enqueue b j no_buckets = ?s1"
    by (simp add: enqueue_def no_buckets_def w)
  have "buckets ?s1 b = Some (Bucket [j] (Some (1, 0, j)))" by simp
  from enqueue_present [OF this, of js] show ?thesis unfolding fold_simps e by simp
qed

lemma settle_inside:
  assumes "buckets s b = Some (Bucket q (Some (limit, i, job)))"
    and "i + 1 < limit" and "limit \<le> length q"
  shows "settle b out s =
     s\<lparr>settled := settled s @ [(b, job, out)],
       buckets := (buckets s)(b \<mapsto> Bucket q (Some (limit, i + 1, q ! (i + 1)))),
       started := started s @ [(b, q ! (i + 1))]\<rparr>"
  using assms by (simp add: settle_def for_loop.simps)

lemma drain:
  "buckets s b = Some (Bucket q (Some (limit, i, q ! i))) \<Longrightarrow> i + length outs < limit \<Longrightarrow>
   limit \<le> length q \<Longrightarrow>
     buckets (fold (settle b) outs s) b =
       Some (Bucket q (Some (limit, i + length outs, q ! (i + length outs)))) \<and>
     started (fold (settle b) outs s) =
       started s @ map (Pair b) (take (length outs) (drop (i + 1) q)) \<and>
     map (\<lambda>(b, j, out). j) (settled (fold (settle b) outs s)) =
       map (\<lambda>(b, j, out). j) (settled s) @ take (length outs) (drop i q) \<and>
     executors (fold (settle b) outs s) = executors s \<and>
     spliced (fold (settle b) outs s) = spliced s"
proof (induction outs arbitrary: s i)
  case Nil
  then show ?case by simp
next
  case (Cons out outs)
  let ?s1 = "settle b out s"
  have lt: "i + 1 < limit" using Cons.prems(2) by simp
  note s1 = settle_inside [OF Cons.prems(1) lt Cons.prems(3), of out]
  have b1: "buckets ?s1 b = Some (Bucket q (Some (limit, i + 1, q ! (i + 1))))"
    by (simp add: s1)
  have lt1: "i + 1 + length outs < limit" using Cons.prems(2) by simp
  note ih = Cons.IH [OF b1 lt1 Cons.prems(3)]
  have il: "i < length q" and il1: "i + 1 < length q" using Cons.prems(2,3) by simp_all
  have d0: "drop i q = q ! i # drop (i + 1) q" using il by (simp add: Cons_nth_drop_Suc)
  have d1: "drop (i + 1) q = q ! (i + 1) # drop (i + 1 + 1) q"
    using il1 Cons_nth_drop_Suc [of "i + 1" q] by simp
  have f2: "started ?s1 = started s @ [(b, q ! (i + 1))]"
    and f3: "settled ?s1 = settled s @ [(b, q ! i, out)]"
    and f4: "executors ?s1 = executors s" and f5: "spliced ?s1 = spliced s"
    by (simp_all add: s1)
  have a: "buckets (fold (settle b) (out # outs) s) b =
       Some (Bucket q (Some (limit, i + length (out # outs), q ! (i + length (out # outs)))))"
    using ih by simp
  have b: "started (fold (settle b) (out # outs) s) =
       started s @ map (Pair b) (take (length (out # outs)) (drop (i + 1) q))"
    using ih f2 by (subst d1) simp
  have c: "map (\<lambda>(b, j, out). j) (settled (fold (settle b) (out # outs) s)) =
       map (\<lambda>(b, j, out). j) (settled s) @ take (length (out # outs)) (drop i q)"
    using ih f3 by (subst d0) simp
  have d: "executors (fold (settle b) (out # outs) s) = executors s"
    and e: "spliced (fold (settle b) (out # outs) s) = spliced s"
    using ih f4 f5 by simp_all
  from a b c d e show ?case by blast
qed

lemma split_ends:
  assumes "length xs = n + 3"
  shows "\<exists>a mid b c. xs = a # mid @ [b, c] \<and> length mid = n"
proof -
  from assms obtain a ys where xs: "xs = a # ys" by (cases xs) auto
  with assms have "ys \<noteq> []" by auto
  then obtain zs c where ys: "ys = zs @ [c]" by (cases ys rule: rev_cases) auto
  with assms xs have "zs \<noteq> []" by auto
  then obtain mid b where zs: "zs = mid @ [b]" by (cases zs rule: rev_cases) auto
  from assms xs ys zs have "length mid = n" by simp
  with xs ys zs show ?thesis by auto
qed

lemma settle_step:
  "buckets s b = Some (Bucket q (Some (limit, i, job))) \<Longrightarrow>
     settle b out s =
       install b (s\<lparr>settled := settled s @ [(b, job, out)]\<rparr>) (for_loop q limit (i + 1) [])"
  by (simp add: settle_def)

text \<open>
  Claim C9. When \<open>gcLimit + 1\<close> = 10,001 jobs are enqueued in one bucket in a burst and
  settle: every job is started once, and settles, in arrival order; no splice happens
  before 10,000 jobs have settled; when the 10,000th settles the first 10,000 items are
  spliced off the queue, which then holds the remaining job, already in flight; one
  executor was started; and the bucket entry is removed when the last job settles.
\<close>

theorem burst_over_gcLimit:
  assumes "length jobs = gcLimit + 1" and "length outs = gcLimit + 1"
  shows "spliced (burst b jobs (take (gcLimit - 1) outs)) = [] \<and>
         buckets (burst b jobs (take (gcLimit - 1) outs)) b =
           Some (Bucket jobs (Some (gcLimit, gcLimit - 1, jobs ! (gcLimit - 1)))) \<and>
         spliced (burst b jobs (take gcLimit outs)) = [(b, gcLimit)] \<and>
         buckets (burst b jobs (take gcLimit outs)) b =
           Some (Bucket [last jobs] (Some (1, 0, last jobs))) \<and>
         started (burst b jobs (take gcLimit outs)) = map (Pair b) jobs \<and>
         started (burst b jobs outs) = map (Pair b) jobs \<and>
         map (\<lambda>(b, j, out). j) (settled (burst b jobs outs)) = jobs \<and>
         spliced (burst b jobs outs) = [(b, gcLimit)] \<and>
         executors (burst b jobs outs) = [b] \<and>
         buckets (burst b jobs outs) b = None"
proof -
  define n where "n = gcLimit - 2"
  have g: "gcLimit = n + 2" using gcLimit_pos by (simp add: n_def)
  from assms(1) g obtain j0 js where jobs: "jobs = j0 # js" and ljs: "length js = n + 2"
    by (cases jobs) auto
  from split_ends [of outs n] assms(2) g obtain o0 mid oA oB where
    outs: "outs = o0 # mid @ [oA, oB]" and lmid: "length mid = n" by auto
  have ljobs: "length jobs = n + 3" using jobs ljs by simp
  have t1: "take (gcLimit - 1) outs = o0 # mid" using outs lmid by (simp add: g)
  have t2: "take gcLimit outs = (o0 # mid) @ [oA]" using outs lmid by (simp add: g)
  have t3: "outs = ((o0 # mid) @ [oA]) @ [oB]" using outs by simp
  let ?s1 = "fold (enqueue b) jobs no_buckets"
  note e = enqueue_burst [of b j0 js, folded jobs]
  \<comment> \<open>the first job settles: the executor re-reads the queue length\<close>
  let ?s2 = "settle b o0 ?s1"
  have fl1: "for_loop jobs 1 (0 + 1) [] = (Suspended jobs gcLimit 1 (jobs ! 1), [])"
    using ljobs g by (simp add: for_loop.simps [of jobs] after_for.simps while_body.simps)
  have s2: "?s2 = install b (?s1\<lparr>settled := settled ?s1 @ [(b, j0, o0)]\<rparr>)
      (Suspended jobs gcLimit 1 (jobs ! 1), [])"
    using settle_step [of ?s1 b jobs 1 0 j0 o0] e fl1 by simp
  have b2: "buckets ?s2 b = Some (Bucket jobs (Some (gcLimit, 1, jobs ! 1)))"
    and st2: "started ?s2 = [(b, j0), (b, jobs ! 1)]"
    and se2: "settled ?s2 = [(b, j0, o0)]"
    and ex2: "executors ?s2 = [b]" and sp2: "spliced ?s2 = []"
    using e by (simp_all add: s2)
  \<comment> \<open>the jobs up to the limit are drained\<close>
  let ?s3 = "fold (settle b) mid ?s2"
  have "1 + length mid < gcLimit" and "gcLimit \<le> length jobs" using lmid g ljobs by simp_all
  note d = drain [OF b2 this]
  have b3: "buckets ?s3 b = Some (Bucket jobs (Some (gcLimit, n + 1, jobs ! (n + 1))))"
    using d lmid by simp
  have st3: "started ?s3 = map (Pair b) (j0 # jobs ! 1 # take n (drop 2 jobs))"
    using d st2 lmid by (simp add: numeral_2_eq_2)
  have se3: "map (\<lambda>(b, j, out). j) (settled ?s3) = j0 # take n (drop 1 jobs)"
    using d se2 lmid by simp
  have ex3: "executors ?s3 = [b]" and sp3: "spliced ?s3 = []" using d ex2 sp2 by simp_all
  \<comment> \<open>the last job below the limit settles: the head is spliced off\<close>
  let ?s4 = "settle b oA ?s3"
  have dr: "drop gcLimit jobs = [last jobs]"
  proof -
    have "length (drop gcLimit jobs) = 1" using ljobs g by simp
    then obtain x where x: "drop gcLimit jobs = [x]"
      by (cases "drop gcLimit jobs") auto
    have "jobs = take gcLimit jobs @ [x]" using x append_take_drop_id [of gcLimit jobs] by simp
    then have "last jobs = x" by (metis last_snoc)
    with x show ?thesis by simp
  qed
  have fl2: "for_loop jobs gcLimit (n + 1 + 1) [] = (Suspended [last jobs] 1 0 (last jobs), [gcLimit])"
    using ljobs g gcLimit_pos dr
    by (simp add: for_loop.simps [of jobs] after_for.simps [of jobs] while_body.simps
        for_loop.simps [of "[last jobs]"])
  have s4: "?s4 = install b (?s3\<lparr>settled := settled ?s3 @ [(b, jobs ! (n + 1), oA)]\<rparr>)
      (Suspended [last jobs] 1 0 (last jobs), [gcLimit])"
    using settle_step [OF b3, of oA] fl2 by simp
  have b4: "buckets ?s4 b = Some (Bucket [last jobs] (Some (1, 0, last jobs)))"
    and st4: "started ?s4 = map (Pair b) (j0 # jobs ! 1 # take n (drop 2 jobs) @ [last jobs])"
    and se4: "map (\<lambda>(b, j, out). j) (settled ?s4) = j0 # take n (drop 1 jobs) @ [jobs ! (n + 1)]"
    and ex4: "executors ?s4 = [b]" and sp4: "spliced ?s4 = [(b, gcLimit)]"
    using st3 se3 ex3 sp3 by (simp_all add: s4)
  \<comment> \<open>the remaining job settles: the queue is empty, the bucket is removed\<close>
  let ?s5 = "settle b oB ?s4"
  have fl3: "for_loop [last jobs] 1 (0 + 1) [] = (Finished, [])"
    by (simp add: for_loop.simps after_for.simps)
  have s5: "?s5 = install b (?s4\<lparr>settled := settled ?s4 @ [(b, last jobs, oB)]\<rparr>) (Finished, [])"
    using settle_step [OF b4, of oB] fl3 by simp
  have b5: "buckets ?s5 b = None"
    and st5: "started ?s5 = map (Pair b) (j0 # jobs ! 1 # take n (drop 2 jobs) @ [last jobs])"
    and se5: "map (\<lambda>(b, j, out). j) (settled ?s5) =
        j0 # take n (drop 1 jobs) @ [jobs ! (n + 1), last jobs]"
    and ex5: "executors ?s5 = [b]" and sp5: "spliced ?s5 = [(b, gcLimit)]"
    using st4 se4 ex4 sp4 by (simp_all add: s5)
  \<comment> \<open>the lists are the jobs in arrival order\<close>
  have all1: "j0 # jobs ! 1 # take n (drop 2 jobs) @ [last jobs] = jobs"
  proof -
    have "jobs = take (n + 2) jobs @ drop (n + 2) jobs" by simp
    also have "drop (n + 2) jobs = [last jobs]" using dr g by simp
    also have "take (n + 2) jobs = j0 # jobs ! 1 # take n (drop 2 jobs)"
      using jobs ljs by (cases js) (simp_all add: numeral_2_eq_2)
    finally show ?thesis by simp
  qed
  have all2: "j0 # take n (drop 1 jobs) @ [jobs ! (n + 1), last jobs] = jobs"
  proof -
    have "jobs = take (n + 2) jobs @ drop (n + 2) jobs" by simp
    also have "drop (n + 2) jobs = [last jobs]" using dr g by simp
    also have "take (n + 2) jobs = take (n + 1) jobs @ [jobs ! (n + 1)]"
      using ljobs take_Suc_conv_app_nth [of "n + 1" jobs] by simp
    also have "take (n + 1) jobs = j0 # take n (drop 1 jobs)" using jobs by simp
    finally show ?thesis by simp
  qed
  have r1: "burst b jobs (take (gcLimit - 1) outs) = ?s3" unfolding burst_def t1 by simp
  have r2: "burst b jobs (take gcLimit outs) = ?s4" unfolding burst_def t2 by simp
  have r3: "burst b jobs outs = ?s5" unfolding burst_def by (subst t3) simp
  have gm: "n + 1 = gcLimit - 1" using g by simp
  note b3' = b3 [unfolded gm]
  note st4' = st4 [unfolded all1]
  note st5' = st5 [unfolded all1]
  note se5' = se5 [unfolded all2]
  show ?thesis
    unfolding r1 r2 r3 using sp3 b3' sp4 b4 st4' st5' se5' sp5 ex5 b5 by blast
qed

theorem burst_over_gcLimit_witness:
  "started (burst () [0..<10001] (replicate 10001 Resolved)) = map (Pair ()) [0..<10001] \<and>
   map (\<lambda>(b, j, out). j) (settled (burst () [0..<10001] (replicate 10001 Resolved))) = [0..<10001] \<and>
   spliced (burst () [0..<10001] (replicate 10001 Resolved)) = [((), gcLimit)] \<and>
   executors (burst () [0..<10001] (replicate 10001 Resolved)) = [()] \<and>
   buckets (burst () [0..<10001] (replicate 10001 Resolved)) () = None"
proof -
  have h1: "length [0..<10001] = gcLimit + 1" by (simp add: gcLimit_def)
  have h2: "length (replicate 10001 Resolved) = gcLimit + 1" by (simp add: gcLimit_def)
  from burst_over_gcLimit [OF h1 h2, of "()"] show ?thesis by blast
qed


section \<open>Properties of relayMessage\<close>


















text \<open>
  A group message whose \<open>assertSessions\<close> throws: nothing is written to the store, but the
  marks made in place before the failure stay in a store that hands out its own objects.
\<close>

lemma marks_survive_failure:
  "fst (relayMessage offline_keys test_store by_reference tco3 ''x@g.us'' hello no_options
          half_known) = Inl (Failure ''timed out'') \<and>
   filter is_SetCall (calls (snd (relayMessage offline_keys test_store by_reference tco3
          ''x@g.us'' hello no_options half_known))) = [] \<and>
   stored_memory test_store ''x@g.us'' (backing (snd (relayMessage offline_keys test_store
          by_reference tco3 ''x@g.us'' hello no_options half_known))) =
     Some [(''a@s.whatsapp.net'', True), (''b:1@s.whatsapp.net'', True),
           (''a:1@s.whatsapp.net'', True), (''b@s.whatsapp.net'', True)] \<and>
   stored_memory test_store ''x@g.us'' (backing (snd (relayMessage offline_keys test_store
          by_value tco3 ''x@g.us'' hello no_options half_known))) =
     Some [(''a@s.whatsapp.net'', True), (''b:1@s.whatsapp.net'', True)]"
  by code_simp














end
